theory Spec2Isabelle
  imports Main "HOL-Library.Multiset"
begin

section \<open>The album ranking service (src/services/localAlbumService.ts)\<close>

text \<open>
  The service keeps one JSON array of albums in \<^verbatim>\<open>localStorage\<close> under a fixed key.
  Every operation reads the whole array through \<^verbatim>\<open>getAlbums\<close>, works on the fresh
  objects it got, and (when it succeeds) writes the whole array back. The model passes
  the content of that one storage slot explicitly: each operation takes the slot and
  returns the slot after the call together with its result or the exception it threw.

  Numbers are modelled as \<^typ>\<open>int\<close>: ranks and points only ever hold integers, which
  JavaScript's doubles represent exactly in the range a personal list can reach.
  \<^verbatim>\<open>localStorage.setItem\<close> is taken to succeed.
\<close>

subsection \<open>Data\<close>

text \<open>The \<^verbatim>\<open>Album\<close> interface. The field \<^verbatim>\<open>id\<close> is written \<open>id'\<close>.\<close>

record album =
  id' :: string
  title :: string
  artist :: string
  releaseYear :: string
  coverArtUrl :: "string option"
  mbid :: string
  rank :: int
  points :: int
  battledWith :: "string list"

text \<open>
  An element of the parsed JSON array, typed \<^verbatim>\<open>any\<close> in \<^verbatim>\<open>getAlbums\<close>: the fields
  \<^verbatim>\<open>points\<close> and \<^verbatim>\<open>battledWith\<close> may be missing (records written before the
  fields existed).
\<close>

record stored_album =
  raw_id :: string
  raw_title :: string
  raw_artist :: string
  raw_releaseYear :: string
  raw_coverArtUrl :: "string option"
  raw_mbid :: string
  raw_rank :: int
  raw_points :: "int option"
  raw_battledWith :: "string list option"

text \<open>
  The storage slot: no item under the key, a string that \<^verbatim>\<open>JSON.parse\<close> rejects (or
  that is not an array, so that \<^verbatim>\<open>albums.map\<close> throws), or an array of albums.
\<close>

datatype store = Absent | Corrupt | Stored "stored_album list"

text \<open>\<^verbatim>\<open>AlbumSearchResult\<close> of musicbrainzApi.\<close>

record albumSearchResult =
  sr_id :: string
  sr_title :: string
  sr_artist :: string
  sr_releaseYear :: string
  sr_coverArtUrl :: "string option"

text \<open>\<^verbatim>\<open>BattleResult\<close>.\<close>

record battleResult =
  winner :: "album option"
  loser :: "album option"
  isDraw :: bool
  winnerPoints :: int
  loserPoints :: int

text \<open>
  Every failure is \<^verbatim>\<open>throw new Error(message)\<close>; the four kinds differ by their message.
\<close>

datatype error = Error string

definition DuplicateError :: "string \<Rightarrow> error" where
  "DuplicateError t = Error (''Album '' @ [CHR 0x22] @ t @ [CHR 0x22] @ '' is already in your ranking.'')"

definition NotFoundError :: error where
  "NotFoundError = Error ''Album not found''"

definition BattleNotFoundError :: error where
  "BattleNotFoundError = Error ''One or both albums not found''"

definition AlreadyBattledError :: "string \<Rightarrow> string \<Rightarrow> error" where
  "AlreadyBattledError t1 t2 = Error (t1 @ '' has already battled with '' @ t2)"

definition InvalidWinnerError :: error where
  "InvalidWinnerError = Error ''Invalid winner ID''"

subsection \<open>getAlbums\<close>

text \<open>The callback of \<^verbatim>\<open>albums.map\<close>: copy the object, default the two fields.\<close>

definition normalize :: "stored_album \<Rightarrow> album" where
  "normalize r =
     \<lparr> id' = raw_id r, title = raw_title r, artist = raw_artist r,
       releaseYear = raw_releaseYear r, coverArtUrl = raw_coverArtUrl r,
       mbid = raw_mbid r, rank = raw_rank r,
       points = (case raw_points r of Some p \<Rightarrow> p | None \<Rightarrow> 0),
       battledWith = (case raw_battledWith r of Some b \<Rightarrow> b | None \<Rightarrow> []) \<rparr>"

text \<open>\<^verbatim>\<open>JSON.stringify\<close> of an \<^verbatim>\<open>Album\<close>: every field is present.\<close>

definition toStored :: "album \<Rightarrow> stored_album" where
  "toStored a =
     \<lparr> raw_id = id' a, raw_title = title a, raw_artist = artist a,
       raw_releaseYear = releaseYear a, raw_coverArtUrl = coverArtUrl a,
       raw_mbid = mbid a, raw_rank = rank a,
       raw_points = Some (points a), raw_battledWith = Some (battledWith a) \<rparr>"

definition setItem :: "album list \<Rightarrow> store" where
  "setItem albums = Stored (map toStored albums)"

text \<open>
  \<^verbatim>\<open>xs.sort((a, b) => b.points - a.points)\<close>: \<^verbatim>\<open>Array.prototype.sort\<close> is stable, so
  this is the stable sort on the key \<open>- points\<close>; \<^const>\<open>sort_key\<close> is insertion sort,
  which is stable.
\<close>

definition sortByPoints :: "album list \<Rightarrow> album list" where
  "sortByPoints xs = sort_key (\<lambda>a. - points a) xs"

text \<open>\<^verbatim>\<open>xs.forEach((album, index) => { album.rank = index + 1 })\<close>, from index \<open>i\<close> on.\<close>

fun assignRanks :: "nat \<Rightarrow> album list \<Rightarrow> album list" where
  "assignRanks i [] = []"
| "assignRanks i (a # as) = a\<lparr>rank := int i + 1\<rparr> # assignRanks (Suc i) as"

definition getAlbums :: "store \<Rightarrow> album list" where
  "getAlbums st =
     (case st of
        Stored raw \<Rightarrow> assignRanks 0 (sortByPoints (map normalize raw))
      | Absent \<Rightarrow> []
      | Corrupt \<Rightarrow> [])"

text \<open>\<^verbatim>\<open>Array.prototype.findIndex\<close>, with \<open>None\<close> for \<open>-1\<close>.\<close>

fun findIndex :: "('a \<Rightarrow> bool) \<Rightarrow> 'a list \<Rightarrow> nat option" where
  "findIndex P [] = None"
| "findIndex P (x # xs) =
     (if P x then Some 0 else map_option Suc (findIndex P xs))"

subsection \<open>addAlbum\<close>

text \<open>The decimal digits of a number, as the template literal prints \<^verbatim>\<open>Date.now()\<close>.\<close>

fun digits :: "nat \<Rightarrow> string" where
  "digits n =
     (if n < 10 then [char_of (48 + n)]
      else digits (n div 10) @ [char_of (48 + n mod 10)])"

declare digits.simps [simp del]

definition newId :: "nat \<Rightarrow> string" where
  "newId now = ''album_'' @ digits now"

text \<open>\<^verbatim>\<open>albums.length > 0 ? Math.max(...albums.map(a => a.rank)) : 0\<close>.\<close>

definition highestRank :: "album list \<Rightarrow> int" where
  "highestRank albums =
     (case map rank albums of [] \<Rightarrow> 0 | r # rs \<Rightarrow> fold max rs r)"

text \<open>
  \<open>now\<close> is the value \<^verbatim>\<open>Date.now()\<close> returns during the call. The result is the slot
  after the call and the created album or the error thrown.
\<close>

definition addAlbum :: "albumSearchResult \<Rightarrow> nat \<Rightarrow> store \<Rightarrow> store \<times> (error + album)" where
  "addAlbum albumData now st =
     (let albums = getAlbums st in
      case find (\<lambda>a. mbid a = sr_id albumData) albums of
        Some existingAlbum \<Rightarrow> (st, Inl (DuplicateError (sr_title albumData)))
      | None \<Rightarrow>
          let newAlbum =
                \<lparr> id' = newId now, title = sr_title albumData, artist = sr_artist albumData,
                  releaseYear = sr_releaseYear albumData,
                  coverArtUrl = sr_coverArtUrl albumData, mbid = sr_id albumData,
                  rank = highestRank albums + 1, points = 0, battledWith = [] \<rparr>
          in (setItem (albums @ [newAlbum]), Inr newAlbum))"

subsection \<open>updateAlbumRank, reorderAlbums, deleteAlbum\<close>

text \<open>
  The two \<^verbatim>\<open>forEach\<close> loops read and write only the rank of the object they visit, with
  \<open>oldRank\<close> and \<open>newRank\<close> fixed before, so each is a map. \<^verbatim>\<open>album\<close> is the object at
  \<open>albumIndex\<close>, so the final assignment is an update at that index.
\<close>

definition shiftRanks :: "int \<Rightarrow> int \<Rightarrow> album list \<Rightarrow> album list" where
  "shiftRanks oldRank newRank albums =
     (if oldRank < newRank then
        map (\<lambda>a. if rank a > oldRank \<and> rank a \<le> newRank then a\<lparr>rank := rank a - 1\<rparr> else a) albums
      else if oldRank > newRank then
        map (\<lambda>a. if rank a \<ge> newRank \<and> rank a < oldRank then a\<lparr>rank := rank a + 1\<rparr> else a) albums
      else albums)"

definition updateAlbumRank :: "string \<Rightarrow> int \<Rightarrow> store \<Rightarrow> store \<times> (error + album)" where
  "updateAlbumRank albumId newRank st =
     (let albums = getAlbums st in
      case findIndex (\<lambda>a. id' a = albumId) albums of
        None \<Rightarrow> (st, Inl NotFoundError)
      | Some albumIndex \<Rightarrow>
          let oldRank = rank (albums ! albumIndex);
              albums1 = shiftRanks oldRank newRank albums;
              albums2 = albums1[albumIndex := (albums1 ! albumIndex)\<lparr>rank := newRank\<rparr>]
          in (setItem albums2, Inr (albums2 ! albumIndex)))"

definition reorderAlbums :: "string \<Rightarrow> string \<Rightarrow> store \<Rightarrow> store \<times> (error + album list)" where
  "reorderAlbums draggedId targetId st =
     (let albums = getAlbums st in
      case (findIndex (\<lambda>a. id' a = draggedId) albums, findIndex (\<lambda>a. id' a = targetId) albums) of
        (Some draggedIndex, Some targetIndex) \<Rightarrow>
          (case updateAlbumRank draggedId (rank (albums ! targetIndex)) st of
             (st1, Inl e) \<Rightarrow> (st1, Inl e)
           | (st1, Inr a) \<Rightarrow> (st1, Inr (getAlbums st1)))
      | _ \<Rightarrow> (st, Inl NotFoundError))"

definition deleteAlbum :: "string \<Rightarrow> store \<Rightarrow> store \<times> (error + unit)" where
  "deleteAlbum albumId st =
     (let albums = getAlbums st in
      case findIndex (\<lambda>a. id' a = albumId) albums of
        None \<Rightarrow> (st, Inl NotFoundError)
      | Some albumIndex \<Rightarrow>
          let deletedAlbum = albums ! albumIndex;
              albums1 = take albumIndex albums @ drop (Suc albumIndex) albums;
              albums2 = map (\<lambda>a. if rank a > rank deletedAlbum then a\<lparr>rank := rank a - 1\<rparr> else a) albums1
          in (setItem albums2, Inr ()))"

subsection \<open>recordBattle\<close>

text \<open>
  \<^verbatim>\<open>album1\<close> and \<^verbatim>\<open>album2\<close> are the objects at \<open>album1Index\<close> and \<open>album2Index\<close> of
  the array; when the two indices are equal they are one object. Each mutation is
  therefore an update of the array at the index, applied in the order of the source and
  reading the array as the earlier mutations left it.
\<close>

definition pushBattledWith :: "nat \<Rightarrow> string \<Rightarrow> album list \<Rightarrow> album list" where
  "pushBattledWith i x albums = albums[i := (albums ! i)\<lparr>battledWith := battledWith (albums ! i) @ [x]\<rparr>]"

definition addPoints :: "nat \<Rightarrow> int \<Rightarrow> album list \<Rightarrow> album list" where
  "addPoints i n albums = albums[i := (albums ! i)\<lparr>points := points (albums ! i) + n\<rparr>]"

text \<open>
  The \<^verbatim>\<open>BattleResult\<close> under construction: \<^verbatim>\<open>winner\<close> and \<^verbatim>\<open>loser\<close> are references
  to objects of the array, kept here as their indices until the array has been sorted
  and ranked (the later \<^verbatim>\<open>forEach\<close> writes the ranks into the same objects).
\<close>

record resultRefs =
  winnerRef :: "nat option"
  loserRef :: "nat option"
  refIsDraw :: bool
  refWinnerPoints :: int
  refLoserPoints :: int

text \<open>
  Lines 199 to 260, on the array \<^verbatim>\<open>getAlbums\<close> returned. The four initialisations of
  missing \<^verbatim>\<open>battledWith\<close> and \<^verbatim>\<open>points\<close> never fire there, since \<^verbatim>\<open>getAlbums\<close> has
  filled both fields.
\<close>

definition scoreBattle :: "nat \<Rightarrow> nat \<Rightarrow> string option \<Rightarrow> album list \<Rightarrow> error + (album list \<times> resultRefs)" where
  "scoreBattle album1Index album2Index winnerId albums =
     (if id' (albums ! album2Index) \<in> set (battledWith (albums ! album1Index)) then
        Inl (AlreadyBattledError (title (albums ! album1Index)) (title (albums ! album2Index)))
      else
        let albums1 = pushBattledWith album1Index (id' (albums ! album2Index)) albums;
            albums2 = pushBattledWith album2Index (id' (albums1 ! album1Index)) albums1
        in
          if winnerId = None then
            Inr (addPoints album2Index 1 (addPoints album1Index 1 albums2),
                 \<lparr> winnerRef = None, loserRef = None, refIsDraw = True,
                   refWinnerPoints = 1, refLoserPoints = 1 \<rparr>)
          else if winnerId = Some (id' (albums2 ! album1Index)) then
            Inr (addPoints album1Index 3 albums2,
                 \<lparr> winnerRef = Some album1Index, loserRef = Some album2Index, refIsDraw = False,
                   refWinnerPoints = 3, refLoserPoints = 0 \<rparr>)
          else if winnerId = Some (id' (albums2 ! album2Index)) then
            Inr (addPoints album2Index 3 albums2,
                 \<lparr> winnerRef = Some album2Index, loserRef = Some album1Index, refIsDraw = False,
                   refWinnerPoints = 3, refLoserPoints = 0 \<rparr>)
          else Inl InvalidWinnerError)"

text \<open>
  Where the object at index \<open>i\<close> stands after the stable sort: the array is sorted with
  every object tagged by its index.
\<close>

definition sortedPosition :: "nat \<Rightarrow> album list \<Rightarrow> nat" where
  "sortedPosition i albums =
     (case findIndex (\<lambda>p. fst p = i)
             (sort_key (\<lambda>p. - points (snd p)) (zip [0..<length albums] albums)) of
        Some k \<Rightarrow> k
      | None \<Rightarrow> 0)"

definition deref :: "album list \<Rightarrow> album list \<Rightarrow> resultRefs \<Rightarrow> battleResult" where
  "deref scored ranked refs =
     \<lparr> winner = map_option (\<lambda>i. ranked ! sortedPosition i scored) (winnerRef refs),
       loser = map_option (\<lambda>i. ranked ! sortedPosition i scored) (loserRef refs),
       isDraw = refIsDraw refs,
       winnerPoints = refWinnerPoints refs,
       loserPoints = refLoserPoints refs \<rparr>"

definition recordBattle :: "string \<Rightarrow> string \<Rightarrow> string option \<Rightarrow> store \<Rightarrow> store \<times> (error + battleResult)" where
  "recordBattle album1Id album2Id winnerId st =
     (let albums = getAlbums st in
      case (findIndex (\<lambda>a. id' a = album1Id) albums, findIndex (\<lambda>a. id' a = album2Id) albums) of
        (Some album1Index, Some album2Index) \<Rightarrow>
          (case scoreBattle album1Index album2Index winnerId albums of
             Inl e \<Rightarrow> (st, Inl e)
           | Inr (scored, refs) \<Rightarrow>
               let ranked = assignRanks 0 (sortByPoints scored)
               in (setItem ranked, Inr (deref scored ranked refs)))
      | _ \<Rightarrow> (st, Inl BattleNotFoundError))"

subsection \<open>getPossibleBattles, getNextBattle\<close>

text \<open>
  The two \<^verbatim>\<open>for\<close> loops, \<open>i\<close> from 0 and \<open>j\<close> from \<open>i + 1\<close>, each up to the length;
  \<^verbatim>\<open>possibleBattles.push\<close> appends to the accumulator.
\<close>

definition innerLoop :: "album list \<Rightarrow> nat \<Rightarrow> (album \<times> album) list \<Rightarrow> (album \<times> album) list" where
  "innerLoop albums i possibleBattles =
     fold (\<lambda>j acc. if id' (albums ! j) \<notin> set (battledWith (albums ! i))
                    then acc @ [(albums ! i, albums ! j)] else acc)
          [Suc i..<length albums] possibleBattles"

definition getPossibleBattles :: "store \<Rightarrow> (album \<times> album) list" where
  "getPossibleBattles st =
     (let albums = getAlbums st in fold (innerLoop albums) [0..<length albums] [])"

definition getNextBattle :: "store \<Rightarrow> (album \<times> album) option" where
  "getNextBattle st =
     (case getPossibleBattles st of [] \<Rightarrow> None | b # bs \<Rightarrow> Some b)"

subsection \<open>Auxiliary notions for the statements\<close>

text \<open>An album with its rank blanked: what two albums share when they differ in rank only.\<close>

definition eraseRank :: "album \<Rightarrow> album" where
  "eraseRank a = a\<lparr>rank := 0\<rparr>"

text \<open>A stored album for the examples: id \<open>n\<close>, title \<open>T\<close>\<open>n\<close>, catalogue key \<open>m\<close>\<open>n\<close>.\<close>

definition sample :: "string \<Rightarrow> int option \<Rightarrow> string list option \<Rightarrow> stored_album" where
  "sample n p b =
     \<lparr> raw_id = n, raw_title = ''T'' @ n, raw_artist = ''artist'', raw_releaseYear = ''1999'',
       raw_coverArtUrl = None, raw_mbid = ''m'' @ n, raw_rank = 0,
       raw_points = p, raw_battledWith = b \<rparr>"

definition exStore :: store where
  "exStore = Stored [sample ''a'' None None, sample ''b'' (Some 4) (Some []), sample ''c'' (Some 4) None]"

definition st3 :: store where
  "st3 = Stored [sample ''a'' None None, sample ''b'' (Some 0) (Some []), sample ''c'' (Some 0) None]"

definition exSearch :: albumSearchResult where
  "exSearch = \<lparr> sr_id = ''mb'', sr_title = ''Again'', sr_artist = ''artist'',
                sr_releaseYear = ''1999'', sr_coverArtUrl = None \<rparr>"

text \<open>
  A sequence of \<^verbatim>\<open>recordBattle\<close> calls, each on the slot the previous one left; \<open>None\<close>
  when one of them throws. A battle is drawn when its \<^verbatim>\<open>winnerId\<close> is \<^verbatim>\<open>null\<close>.
\<close>

type_synonym battle = "string \<times> string \<times> string option"

fun runBattles :: "battle list \<Rightarrow> store \<Rightarrow> store option" where
  "runBattles [] st = Some st"
| "runBattles ((album1Id, album2Id, winnerId) # bs) st =
     (case recordBattle album1Id album2Id winnerId st of
        (st', Inr r) \<Rightarrow> runBattles bs st'
      | (st', Inl e) \<Rightarrow> None)"

definition isDrawn :: "battle \<Rightarrow> bool" where
  "isDrawn b = (snd (snd b) = None)"

definition totalPoints :: "store \<Rightarrow> int" where
  "totalPoints st = sum_list (map points (getAlbums st))"

text \<open>
  The pair \<open>a\<close>, \<open>b\<close> is recorded as battled: both ids are found in the collection and each
  of the two albums found holds the other's id in \<^verbatim>\<open>battledWith\<close>.
\<close>

definition alreadyBattled :: "store \<Rightarrow> string \<Rightarrow> string \<Rightarrow> bool" where
  "alreadyBattled st a b =
     (let albums = getAlbums st in
      case (findIndex (\<lambda>x. id' x = a) albums, findIndex (\<lambda>x. id' x = b) albums) of
        (Some i1, Some i2) \<Rightarrow>
          id' (albums ! i2) \<in> set (battledWith (albums ! i1))
          \<and> id' (albums ! i1) \<in> set (battledWith (albums ! i2))
      | _ \<Rightarrow> False)"

text \<open>
  The enumeration of unplayed pairs as a comprehension: the pairs of positions \<open>i < j\<close>,
  \<open>i\<close> ascending and within it \<open>j\<close> ascending, where the album at \<open>i\<close> does not hold the
  id of the album at \<open>j\<close>.
\<close>

definition unplayedPairs :: "album list \<Rightarrow> (album \<times> album) list" where
  "unplayedPairs albums =
     concat (map (\<lambda>i. map (\<lambda>j. (albums ! i, albums ! j))
                         (filter (\<lambda>j. id' (albums ! j) \<notin> set (battledWith (albums ! i)))
                                 [Suc i..<length albums]))
                 [0..<length albums])"

text \<open>
  The data model's invariant that the relation is symmetric, and the complete round robin:
  every pair of positions \<open>i < j\<close> is recorded in both directions.
\<close>

definition symmetricBattles :: "album list \<Rightarrow> bool" where
  "symmetricBattles albums =
     (\<forall>i\<in>set [0..<length albums]. \<forall>j\<in>set [0..<length albums].
        id' (albums ! j) \<in> set (battledWith (albums ! i))
        \<longrightarrow> id' (albums ! i) \<in> set (battledWith (albums ! j)))"

definition allPairsMutual :: "album list \<Rightarrow> bool" where
  "allPairsMutual albums =
     (\<forall>i\<in>set [0..<length albums]. \<forall>j\<in>set [Suc i..<length albums].
        id' (albums ! j) \<in> set (battledWith (albums ! i))
        \<and> id' (albums ! i) \<in> set (battledWith (albums ! j)))"

definition st2 :: store where
  "st2 = Stored [sample ''a'' (Some 3) (Some [''b'']), sample ''b'' (Some 0) (Some [''a''])]"

text \<open>
  The rank update of the manual reorder as a rule on ranks: the moved album (rank
  \<open>oldRank\<close>) gets \<open>newRank\<close>; when moving later, the ranks in \<open>(oldRank, newRank]\<close> go
  down by one; when moving earlier, the ranks in \<open>[newRank, oldRank)\<close> go up by one; every
  other rank stays.
\<close>

definition newRankOf :: "int \<Rightarrow> int \<Rightarrow> int \<Rightarrow> int" where
  "newRankOf oldRank newRank r =
     (if r = oldRank then newRank
      else if oldRank < newRank \<and> oldRank < r \<and> r \<le> newRank then r - 1
      else if oldRank > newRank \<and> newRank \<le> r \<and> r < oldRank then r + 1
      else r)"

text \<open>
  Moving one element of a list: take the element at \<open>i\<close> out, put it back at position
  \<open>j\<close> (\<^verbatim>\<open>splice(i, 1)\<close> followed by \<^verbatim>\<open>splice(j, 0, x)\<close>).
\<close>

definition moveItem :: "nat \<Rightarrow> nat \<Rightarrow> 'a list \<Rightarrow> 'a list" where
  "moveItem i j xs =
     (let x = xs ! i; rest = take i xs @ drop (Suc i) xs
      in take j rest @ [x] @ drop j rest)"

text \<open>Where the element at position \<open>k\<close> stands after that move.\<close>

definition newPos :: "nat \<Rightarrow> nat \<Rightarrow> nat \<Rightarrow> nat" where
  "newPos i j k =
     (if k = i then j
      else if i < j \<and> i < k \<and> k \<le> j then k - 1
      else if j < i \<and> j \<le> k \<and> k < i then k + 1
      else k)"


text \<open>
  A slot where the pair is recorded in one direction only: \<open>a\<close> holds the id of \<open>b\<close>, \<open>b\<close>
  holds nothing.
\<close>

definition oneDir :: store where
  "oneDir = Stored [sample ''a'' (Some 0) (Some [''b'']), sample ''b'' (Some 0) (Some [])]"




section \<open>Basic facts\<close>

lemma length_assignRanks [simp]: "length (assignRanks i xs) = length xs"
  by (induction xs arbitrary: i) auto

lemma nth_assignRanks:
  "k < length xs \<Longrightarrow> assignRanks i xs ! k = (xs ! k)\<lparr>rank := int (i + k) + 1\<rparr>"
proof (induction xs arbitrary: i k)
  case Nil
  then show ?case by simp
next
  case (Cons a as)
  then show ?case by (cases k) auto
qed

lemma map_assignRanks:
  assumes "\<And>a r. f (a\<lparr>rank := r\<rparr>) = f a"
  shows "map f (assignRanks i xs) = map f xs"
  using assms by (induction xs arbitrary: i) auto

lemma map_points_assignRanks [simp]: "map points (assignRanks i xs) = map points xs"
  by (rule map_assignRanks) simp

lemma map_eraseRank_assignRanks [simp]: "map eraseRank (assignRanks i xs) = map eraseRank xs"
  by (rule map_assignRanks) (simp add: eraseRank_def)

lemma map_rank_assignRanks:
  "map rank (assignRanks i xs) = map (\<lambda>k. int k + 1) [i..<i + length xs]"
  by (rule nth_equalityI) (simp_all add: nth_assignRanks)

lemma assignRanks_cong:
  "map eraseRank xs = map eraseRank ys \<Longrightarrow> assignRanks i xs = assignRanks i ys"
proof (induction xs arbitrary: i ys)
  case Nil
  then show ?case by simp
next
  case (Cons a as)
  then obtain b bs where ys: "ys = b # bs" by (cases ys) auto
  with Cons.prems have e: "eraseRank a = eraseRank b" and r: "map eraseRank as = map eraseRank bs"
    by auto
  from e have "a\<lparr>rank := int i + 1\<rparr> = b\<lparr>rank := int i + 1\<rparr>"
    by (cases a, cases b) (simp add: eraseRank_def)
  with Cons.IH [OF r] ys show ?case by simp
qed

lemma assignRanks_idem [simp]: "assignRanks i (assignRanks i xs) = assignRanks i xs"
  by (rule assignRanks_cong) simp

lemma points_eraseRank [simp]: "points (eraseRank a) = points a"
  by (simp add: eraseRank_def)

lemma map_points_of_eraseRank:
  "map eraseRank xs = map eraseRank ys \<Longrightarrow> map points xs = map points ys"
proof -
  assume "map eraseRank xs = map eraseRank ys"
  then have "map points (map eraseRank xs) = map points (map eraseRank ys)" by simp
  then show ?thesis by (simp add: comp_def)
qed

lemma length_sortByPoints [simp]: "length (sortByPoints xs) = length xs"
  by (simp add: sortByPoints_def)

lemma mset_sortByPoints [simp]: "mset (sortByPoints xs) = mset xs"
  by (simp add: sortByPoints_def)

lemma set_sortByPoints [simp]: "set (sortByPoints xs) = set xs"
  by (simp add: sortByPoints_def)

lemma sorted_sortByPoints: "sorted (map (\<lambda>a. - points a) (sortByPoints xs))"
  by (simp add: sortByPoints_def)

lemma sortByPoints_id: "sorted (map (\<lambda>a. - points a) xs) \<Longrightarrow> sortByPoints xs = xs"
  by (simp add: sortByPoints_def sort_key_id_if_sorted)

lemma sortByPoints_stable:
  "filter (\<lambda>a. points a = p) (sortByPoints xs) = filter (\<lambda>a. points a = p) xs"
  using sort_key_stable [of "\<lambda>a. - points a" "- p" xs] by (simp add: sortByPoints_def)

lemma neg_points_map: "map (\<lambda>a. - points a) xs = map uminus (map points xs)"
  by simp

lemma sorted_assignRanks:
  "sorted (map (\<lambda>a. - points a) (assignRanks i xs)) = sorted (map (\<lambda>a. - points a) xs)"
  by (simp only: neg_points_map map_points_assignRanks)

lemma normalize_toStored [simp]: "normalize (toStored a) = a"
  by (simp add: normalize_def toStored_def)

lemma getAlbums_setItem: "getAlbums (setItem xs) = assignRanks 0 (sortByPoints xs)"
  by (simp add: getAlbums_def setItem_def comp_def)

lemma sorted_getAlbums: "sorted (map (\<lambda>a. - points a) (getAlbums st))"
  by (cases st) (simp_all add: getAlbums_def sorted_assignRanks sorted_sortByPoints)

lemma map_rank_getAlbums:
  "map rank (getAlbums st) = map (\<lambda>k. int k + 1) [0..<length (getAlbums st)]"
  by (cases st) (simp_all add: getAlbums_def map_rank_assignRanks)

lemma rank_getAlbums_nth:
  "k < length (getAlbums st) \<Longrightarrow> rank (getAlbums st ! k) = int k + 1"
  by (cases st) (simp_all add: getAlbums_def nth_assignRanks)

lemma assignRanks_getAlbums [simp]: "assignRanks 0 (getAlbums st) = getAlbums st"
  by (cases st) (simp_all add: getAlbums_def)

text \<open>Writing back what was read, with any ranks, reads the same again.\<close>

lemma getAlbums_rank_only:
  assumes "map eraseRank zs = map eraseRank (getAlbums st)"
  shows "getAlbums (setItem zs) = getAlbums st"
proof -
  have "map points zs = map points (getAlbums st)"
    using assms by (rule map_points_of_eraseRank)
  then have "sorted (map (\<lambda>a. - points a) zs)"
    using sorted_getAlbums [of st] by (simp only: neg_points_map)
  then have "sortByPoints zs = zs" by (rule sortByPoints_id)
  then have "getAlbums (setItem zs) = assignRanks 0 zs" by (simp add: getAlbums_setItem)
  also have "\<dots> = assignRanks 0 (getAlbums st)" using assms by (rule assignRanks_cong)
  finally show ?thesis by simp
qed

lemma findIndex_Some:
  "findIndex P xs = Some i \<Longrightarrow> i < length xs \<and> P (xs ! i) \<and> (\<forall>j<i. \<not> P (xs ! j))"
proof (induction xs arbitrary: i)
  case Nil
  then show ?case by simp
next
  case (Cons x xs)
  show ?case
  proof (cases "P x")
    case True
    with Cons.prems show ?thesis by simp
  next
    case False
    with Cons.prems obtain k where k: "findIndex P xs = Some k" and i: "i = Suc k" by auto
    from Cons.IH [OF k] False i show ?thesis by (auto simp: less_Suc_eq_0_disj)
  qed
qed

lemma findIndex_None: "findIndex P xs = None \<longleftrightarrow> (\<forall>x\<in>set xs. \<not> P x)"
  by (induction xs) auto

lemma findIndex_first:
  "i < length xs \<Longrightarrow> P (xs ! i) \<Longrightarrow> \<forall>j<i. \<not> P (xs ! j) \<Longrightarrow> findIndex P xs = Some i"
proof (induction xs arbitrary: i)
  case Nil
  then show ?case by simp
next
  case (Cons x xs)
  show ?case
  proof (cases i)
    case 0
    with Cons.prems show ?thesis by simp
  next
    case (Suc k)
    with Cons.prems have "\<not> P x" by auto
    moreover have "findIndex P xs = Some k"
      using Cons.prems Suc by (intro Cons.IH) auto
    ultimately show ?thesis using Suc by simp
  qed
qed

section \<open>Reading the collection\<close>

lemma ranks_upt: "map (\<lambda>k. int k + 1) [0..<n] = map int [1..<Suc n]"
proof -
  have "map int [1..<Suc n] = map int (map Suc [0..<n])"
    by (simp only: map_Suc_upt One_nat_def)
  then show ?thesis by (simp add: comp_def)
qed

lemma filter_points_eraseRank:
  "filter (\<lambda>a. points a = p) (map eraseRank xs) = map eraseRank (filter (\<lambda>a. points a = p) xs)"
  by (simp add: filter_map comp_def)

lemma eraseRank_sort_stable:
  "filter (\<lambda>a. points a = p) (map eraseRank (assignRanks i (sortByPoints xs)))
   = filter (\<lambda>a. points a = p) (map eraseRank xs)"
  by (simp add: filter_points_eraseRank sortByPoints_stable)

lemma mset_eraseRank_sort:
  "mset (map eraseRank (assignRanks i (sortByPoints xs))) = mset (map eraseRank xs)"
  by simp

lemma sorted_wrt_points:
  "sorted (map (\<lambda>a. - points a) xs) \<Longrightarrow> sorted_wrt (\<lambda>a b. points b \<le> points a) xs"
  by (simp add: sorted_map)

lemma sorted_wrt_ranked: "sorted_wrt (\<lambda>a b. points b \<le> points a) (assignRanks i (sortByPoints xs))"
  by (rule sorted_wrt_points) (simp add: sorted_assignRanks sorted_sortByPoints)

text \<open>
  Claim C2. \<^verbatim>\<open>getAlbums\<close> treats an absent or corrupt slot as the empty collection.
  On a stored array it replaces a missing \<^verbatim>\<open>points\<close> by 0 and a missing
  \<^verbatim>\<open>battledWith\<close> by the empty array, and returns the same albums (up to rank), sorted
  by points descending, albums of equal points in their stored order, with ranks
  1, 2, ..., N in this order; so an album standing earlier has at least the points and a
  smaller rank than one standing later.
\<close>

theorem getAlbums_normalizes:
  "getAlbums Absent = [] \<and> getAlbums Corrupt = []
   \<and> points (normalize x) = (case raw_points x of None \<Rightarrow> 0 | Some p \<Rightarrow> p)
   \<and> battledWith (normalize x) = (case raw_battledWith x of None \<Rightarrow> [] | Some b \<Rightarrow> b)
   \<and> length (getAlbums (Stored raw)) = length raw
   \<and> mset (map eraseRank (getAlbums (Stored raw))) = mset (map (eraseRank \<circ> normalize) raw)
   \<and> sorted_wrt (\<lambda>a b. points b \<le> points a) (getAlbums (Stored raw))
   \<and> (\<forall>p. filter (\<lambda>a. points a = p) (map eraseRank (getAlbums (Stored raw)))
          = filter (\<lambda>a. points a = p) (map (eraseRank \<circ> normalize) raw))
   \<and> map rank (getAlbums (Stored raw)) = map int [1..<Suc (length raw)]
   \<and> (\<forall>i j. i < j \<and> j < length raw \<longrightarrow>
          points (getAlbums (Stored raw) ! j) \<le> points (getAlbums (Stored raw) ! i)
          \<and> rank (getAlbums (Stored raw) ! i) < rank (getAlbums (Stored raw) ! j))"
proof -
  let ?r = "getAlbums (Stored raw)"
  have r: "?r = assignRanks 0 (sortByPoints (map normalize raw))"
    by (simp add: getAlbums_def)
  have len: "length ?r = length raw" by (simp add: r)
  have srt: "sorted_wrt (\<lambda>a b. points b \<le> points a) ?r"
    unfolding r by (rule sorted_wrt_ranked)
  have rk: "map rank ?r = map int [1..<Suc (length raw)]"
    using map_rank_getAlbums [of "Stored raw"] by (simp only: len ranks_upt)
  have ms: "mset (map eraseRank ?r) = mset (map (eraseRank \<circ> normalize) raw)"
    unfolding r by (simp only: mset_eraseRank_sort map_map)
  have st: "\<forall>p. filter (\<lambda>a. points a = p) (map eraseRank ?r)
          = filter (\<lambda>a. points a = p) (map (eraseRank \<circ> normalize) raw)"
    unfolding r by (simp only: eraseRank_sort_stable map_map) simp
  have ord: "\<forall>i j. i < j \<and> j < length raw \<longrightarrow>
          points (?r ! j) \<le> points (?r ! i) \<and> rank (?r ! i) < rank (?r ! j)"
  proof (intro allI impI)
    fix i j assume ij: "i < j \<and> j < length raw"
    then have "i < j" "j < length ?r" by (simp_all add: len)
    with srt have "points (?r ! j) \<le> points (?r ! i)"
      by (simp add: sorted_wrt_iff_nth_less)
    moreover have "rank (?r ! i) = int i + 1" "rank (?r ! j) = int j + 1"
      using ij by (simp_all add: rank_getAlbums_nth len)
    ultimately show "points (?r ! j) \<le> points (?r ! i) \<and> rank (?r ! i) < rank (?r ! j)"
      using ij by simp
  qed
  have a: "getAlbums Absent = [] \<and> getAlbums Corrupt = []" by (simp add: getAlbums_def)
  have n: "points (normalize x) = (case raw_points x of None \<Rightarrow> 0 | Some p \<Rightarrow> p)
     \<and> battledWith (normalize x) = (case raw_battledWith x of None \<Rightarrow> [] | Some b \<Rightarrow> b)"
    by (simp add: normalize_def split: option.splits)
  from a n len ms srt st rk ord show ?thesis by blast
qed

lemma getAlbums_exStore:
  "getAlbums exStore = [normalize (sample ''b'' (Some 4) (Some []))\<lparr>rank := 1\<rparr>,
      normalize (sample ''c'' (Some 4) None)\<lparr>rank := 2\<rparr>,
      normalize (sample ''a'' None None)\<lparr>rank := 3\<rparr>]"
  by (simp add: exStore_def getAlbums_def sortByPoints_def normalize_def sample_def)

theorem getAlbums_normalizes_witness:
  "(0::nat) < 2 \<and> (2::nat) < length [sample ''a'' None None, sample ''b'' (Some 4) (Some []), sample ''c'' (Some 4) None]
   \<and> points (getAlbums exStore ! 2) \<le> points (getAlbums exStore ! 0)
   \<and> rank (getAlbums exStore ! 0) < rank (getAlbums exStore ! 2)"
proof -
  let ?raw = "[sample ''a'' None None, sample ''b'' (Some 4) (Some []), sample ''c'' (Some 4) None]"
  have h: "(0::nat) < 2 \<and> (2::nat) < length ?raw" by simp
  from getAlbums_normalizes [of "sample ''a'' None None" ?raw]
  have "\<forall>i j. i < j \<and> j < length ?raw \<longrightarrow>
          points (getAlbums (Stored ?raw) ! j) \<le> points (getAlbums (Stored ?raw) ! i)
          \<and> rank (getAlbums (Stored ?raw) ! i) < rank (getAlbums (Stored ?raw) ! j)"
    by (elim conjE)
  then have "points (getAlbums (Stored ?raw) ! 2) \<le> points (getAlbums (Stored ?raw) ! 0)
          \<and> rank (getAlbums (Stored ?raw) ! 0) < rank (getAlbums (Stored ?raw) ! 2)"
    using h by blast
  with h show ?thesis by (simp only: exStore_def)
qed

section \<open>Recording a battle\<close>

lemma nth_list_update': "k < length xs \<Longrightarrow> xs[i := x] ! k = (if k = i then x else xs ! k)"
  by (cases "k = i") simp_all

lemma length_pushBattledWith [simp]: "length (pushBattledWith i x xs) = length xs"
  by (simp add: pushBattledWith_def)

lemma length_addPoints [simp]: "length (addPoints i n xs) = length xs"
  by (simp add: addPoints_def)

lemma map_id_pushBattledWith [simp]: "map id' (pushBattledWith i x xs) = map id' xs"
  by (rule nth_equalityI) (simp_all add: pushBattledWith_def nth_list_update')

lemma map_id_addPoints [simp]: "map id' (addPoints i n xs) = map id' xs"
  by (rule nth_equalityI) (simp_all add: addPoints_def nth_list_update')

lemma map_points_pushBattledWith [simp]: "map points (pushBattledWith i x xs) = map points xs"
  by (rule nth_equalityI) (simp_all add: pushBattledWith_def nth_list_update')

lemma points_addPoints:
  "k < length xs \<Longrightarrow> points (addPoints i n xs ! k) = points (xs ! k) + (if k = i then n else 0)"
  by (simp add: addPoints_def nth_list_update')

lemma points_pushBattledWith:
  "k < length xs \<Longrightarrow> points (pushBattledWith i x xs ! k) = points (xs ! k)"
  by (simp add: pushBattledWith_def nth_list_update')

lemma id_pushBattledWith:
  "k < length xs \<Longrightarrow> id' (pushBattledWith i x xs ! k) = id' (xs ! k)"
  by (simp add: pushBattledWith_def nth_list_update')

lemma battledWith_addPoints:
  "k < length xs \<Longrightarrow> battledWith (addPoints i n xs ! k) = battledWith (xs ! k)"
  by (simp add: addPoints_def nth_list_update')

lemma battledWith_pushBattledWith:
  "k < length xs \<Longrightarrow> battledWith (pushBattledWith i x xs ! k)
     = battledWith (xs ! k) @ (if k = i then [x] else [])"
  by (simp add: pushBattledWith_def nth_list_update')

text \<open>What a successful scoring phase leaves.\<close>

lemma scoreBattle_Inr:
  assumes "scoreBattle i1 i2 w xs = Inr (zs, refs)" and "i1 < length xs" and "i2 < length xs"
  shows "length zs = length xs"
    and "map id' zs = map id' xs"
    and "id' (xs ! i2) \<notin> set (battledWith (xs ! i1))"
    and "w = None \<or> w = Some (id' (xs ! i1)) \<or> w = Some (id' (xs ! i2))"
    and "\<forall>k<length xs. points (zs ! k) = points (xs ! k) +
           (if w = None then (if k = i1 then 1 else 0) + (if k = i2 then 1 else 0)
            else if w = Some (id' (xs ! i1)) then (if k = i1 then 3 else 0)
            else (if k = i2 then 3 else 0))"
    and "\<forall>k<length xs. battledWith (zs ! k) = battledWith (xs ! k)
           @ (if k = i1 then [id' (xs ! i2)] else []) @ (if k = i2 then [id' (xs ! i1)] else [])"
proof -
  let ?a1 = "pushBattledWith i1 (id' (xs ! i2)) xs"
  let ?a2 = "pushBattledWith i2 (id' (?a1 ! i1)) ?a1"
  have nb: "id' (xs ! i2) \<notin> set (battledWith (xs ! i1))"
    using assms(1) by (auto simp: scoreBattle_def split: if_splits)
  have id1: "id' (?a1 ! i1) = id' (xs ! i1)" using assms(2) by (simp add: id_pushBattledWith)
  have id21: "id' (?a2 ! i1) = id' (xs ! i1)" using assms(2) by (simp add: id_pushBattledWith)
  have id22: "id' (?a2 ! i2) = id' (xs ! i2)" using assms(3) by (simp add: id_pushBattledWith)
  have cases: "(w = None \<and> zs = addPoints i2 1 (addPoints i1 1 ?a2))
      \<or> (w \<noteq> None \<and> w = Some (id' (xs ! i1)) \<and> zs = addPoints i1 3 ?a2)
      \<or> (w \<noteq> None \<and> w \<noteq> Some (id' (xs ! i1)) \<and> w = Some (id' (xs ! i2)) \<and> zs = addPoints i2 3 ?a2)"
    using assms(1) nb unfolding scoreBattle_def Let_def id21 id22
    by (auto split: if_splits)
  show "id' (xs ! i2) \<notin> set (battledWith (xs ! i1))" by (rule nb)
  from cases show "length zs = length xs" by auto
  from cases show "map id' zs = map id' xs" by auto
  from cases show "w = None \<or> w = Some (id' (xs ! i1)) \<or> w = Some (id' (xs ! i2))" by auto
  from cases show "\<forall>k<length xs. points (zs ! k) = points (xs ! k) +
           (if w = None then (if k = i1 then 1 else 0) + (if k = i2 then 1 else 0)
            else if w = Some (id' (xs ! i1)) then (if k = i1 then 3 else 0)
            else (if k = i2 then 3 else 0))"
    by (auto simp: points_addPoints points_pushBattledWith)
  from cases id1 show "\<forall>k<length xs. battledWith (zs ! k) = battledWith (xs ! k)
           @ (if k = i1 then [id' (xs ! i2)] else []) @ (if k = i2 then [id' (xs ! i1)] else [])"
    by (auto simp: battledWith_addPoints battledWith_pushBattledWith)
qed

lemma recordBattle_Inr:
  assumes "recordBattle a b w st = (st', Inr r)"
  shows "\<exists>i1 i2 zs refs.
           findIndex (\<lambda>x. id' x = a) (getAlbums st) = Some i1
         \<and> findIndex (\<lambda>x. id' x = b) (getAlbums st) = Some i2
         \<and> scoreBattle i1 i2 w (getAlbums st) = Inr (zs, refs)
         \<and> st' = setItem (assignRanks 0 (sortByPoints zs))"
  using assms unfolding recordBattle_def Let_def
  by (auto split: option.splits sum.splits prod.splits)

lemma recordBattle_Inl:
  assumes "recordBattle a b w st = (st', Inl e)"
  shows "st' = st"
  using assms unfolding recordBattle_def Let_def
  by (auto split: option.splits sum.splits prod.splits)

lemma recordBattle_st3_succeeds: "\<exists>st' r. recordBattle ''a'' ''b'' (Some ''a'') st3 = (st', Inr r)"
  by (simp add: recordBattle_def st3_def getAlbums_def sortByPoints_def normalize_def sample_def
       scoreBattle_def pushBattledWith_def addPoints_def Let_def)

lemma three_albums_scenario:
  assumes "distinct [raw_id A, raw_id B, raw_id C]"
    and "points (normalize A) = 0" and "points (normalize B) = 0" and "points (normalize C) = 0"
    and "raw_id B \<notin> set (battledWith (normalize A))"
  shows "fst (recordBattle (raw_id A) (raw_id B) (Some (raw_id A)) (Stored [A, B, C]))
     = setItem [ (normalize A)\<lparr>battledWith := battledWith (normalize A) @ [raw_id B],
                      points := 3, rank := 1\<rparr>,
                 (normalize B)\<lparr>battledWith := battledWith (normalize B) @ [raw_id A], rank := 2\<rparr>,
                 (normalize C)\<lparr>rank := 3\<rparr> ]"
proof -
  have ids: "id' (normalize A) = raw_id A" "id' (normalize B) = raw_id B" "id' (normalize C) = raw_id C"
    by (simp_all add: normalize_def)
  have g: "getAlbums (Stored [A, B, C]) = [(normalize A)\<lparr>rank := 1\<rparr>, (normalize B)\<lparr>rank := 2\<rparr>, (normalize C)\<lparr>rank := 3\<rparr>]"
    using assms(2-4) by (simp add: getAlbums_def sortByPoints_def)
  show ?thesis
    unfolding recordBattle_def g Let_def using assms
    by (simp add: ids scoreBattle_def pushBattledWith_def addPoints_def Let_def sortByPoints_def)
qed


lemma resort_general:
  assumes "recordBattle a b w st = (st', Inr r)"
  shows "\<exists>i1 i2 zs refs.
        findIndex (\<lambda>x. id' x = a) (getAlbums st) = Some i1
      \<and> findIndex (\<lambda>x. id' x = b) (getAlbums st) = Some i2
      \<and> scoreBattle i1 i2 w (getAlbums st) = Inr (zs, refs)
      \<and> (\<exists>ys. st' = setItem ys \<and> length ys = length zs
            \<and> mset (map eraseRank ys) = mset (map eraseRank zs)
            \<and> sorted_wrt (\<lambda>x y. points y \<le> points x) ys
            \<and> (\<forall>p. filter (\<lambda>x. points x = p) (map eraseRank ys)
                   = filter (\<lambda>x. points x = p) (map eraseRank zs))
            \<and> map rank ys = map int [1..<Suc (length zs)])"
proof -
  from recordBattle_Inr [OF assms] obtain i1 i2 zs refs where
    i1: "findIndex (\<lambda>x. id' x = a) (getAlbums st) = Some i1" and
    i2: "findIndex (\<lambda>x. id' x = b) (getAlbums st) = Some i2" and
    sc: "scoreBattle i1 i2 w (getAlbums st) = Inr (zs, refs)" and
    st': "st' = setItem (assignRanks 0 (sortByPoints zs))"
    by blast
  let ?ys = "assignRanks 0 (sortByPoints zs)"
  have "length ?ys = length zs" by simp
  moreover have "mset (map eraseRank ?ys) = mset (map eraseRank zs)"
    by (rule mset_eraseRank_sort)
  moreover have "sorted_wrt (\<lambda>x y. points y \<le> points x) ?ys" by (rule sorted_wrt_ranked)
  moreover have "\<forall>p. filter (\<lambda>x. points x = p) (map eraseRank ?ys)
                   = filter (\<lambda>x. points x = p) (map eraseRank zs)"
    by (simp only: eraseRank_sort_stable) simp
  moreover have "map rank ?ys = map int [1..<Suc (length zs)]"
    using map_rank_assignRanks [of 0 "sortByPoints zs"] by (simp only: ranks_upt add_0 length_sortByPoints)
  ultimately show ?thesis using i1 i2 sc st' by blast
qed

text \<open>
  Claim C3. A successful \<^verbatim>\<open>recordBattle\<close> writes the scored array \<open>zs\<close> back sorted by
  points descending, albums of equal points in the order they had in \<open>zs\<close>, with ranks
  1, 2, ..., N. For three stored albums A, B, C of distinct ids, all at 0 points, A not yet
  having battled B, \<^verbatim>\<open>recordBattle(A, B, A)\<close> writes A with 3 points and rank 1, then B with
  rank 2, then C with rank 3.
\<close>

theorem recordBattle_resorts:
  "(recordBattle a b w st = (st', Inr r) \<longrightarrow>
     (\<exists>i1 i2 zs refs.
        findIndex (\<lambda>x. id' x = a) (getAlbums st) = Some i1
      \<and> findIndex (\<lambda>x. id' x = b) (getAlbums st) = Some i2
      \<and> scoreBattle i1 i2 w (getAlbums st) = Inr (zs, refs)
      \<and> (\<exists>ys. st' = setItem ys \<and> length ys = length zs
            \<and> mset (map eraseRank ys) = mset (map eraseRank zs)
            \<and> sorted_wrt (\<lambda>x y. points y \<le> points x) ys
            \<and> (\<forall>p. filter (\<lambda>x. points x = p) (map eraseRank ys)
                   = filter (\<lambda>x. points x = p) (map eraseRank zs))
            \<and> map rank ys = map int [1..<Suc (length zs)])))
   \<and> (distinct [raw_id A, raw_id B, raw_id C]
        \<and> points (normalize A) = 0 \<and> points (normalize B) = 0 \<and> points (normalize C) = 0
        \<and> raw_id B \<notin> set (battledWith (normalize A)) \<longrightarrow>
      fst (recordBattle (raw_id A) (raw_id B) (Some (raw_id A)) (Stored [A, B, C]))
        = setItem [ (normalize A)\<lparr>battledWith := battledWith (normalize A) @ [raw_id B],
                         points := 3, rank := 1\<rparr>,
                    (normalize B)\<lparr>battledWith := battledWith (normalize B) @ [raw_id A], rank := 2\<rparr>,
                    (normalize C)\<lparr>rank := 3\<rparr> ])"
  using resort_general three_albums_scenario by blast

theorem recordBattle_resorts_witness:
  "(\<exists>(zs::album list) ys. fst (recordBattle ''a'' ''b'' (Some ''a'') st3) = setItem ys
       \<and> sorted_wrt (\<lambda>x y. points y \<le> points x) ys
       \<and> map rank ys = map int [1..<Suc (length zs)] \<and> length ys = length zs)
   \<and> fst (recordBattle ''a'' ''b'' (Some ''a'') st3)
        = setItem [normalize (sample ''a'' (Some 3) (Some [''b'']))\<lparr>rank := 1\<rparr>,
                   normalize (sample ''b'' (Some 0) (Some [''a'']))\<lparr>rank := 2\<rparr>,
                   normalize (sample ''c'' (Some 0) (Some []))\<lparr>rank := 3\<rparr>]"
proof -
  let ?A = "sample ''a'' None None" and ?B = "sample ''b'' (Some 0) (Some [])"
    and ?C = "sample ''c'' (Some 0) None"
  obtain st' r where ok: "recordBattle ''a'' ''b'' (Some ''a'') st3 = (st', Inr r)"
    using recordBattle_st3_succeeds by blast
  note T = recordBattle_resorts [of "''a''" "''b''" "Some ''a''" st3 st' r ?A ?B ?C]
  from mp [OF conjunct1 [OF T] ok]
  have 1: "\<exists>(zs::album list) ys. st' = setItem ys
       \<and> sorted_wrt (\<lambda>x y. points y \<le> points x) ys
       \<and> map rank ys = map int [1..<Suc (length zs)] \<and> length ys = length zs"
    by blast
  have h: "distinct [raw_id ?A, raw_id ?B, raw_id ?C]
        \<and> points (normalize ?A) = 0 \<and> points (normalize ?B) = 0 \<and> points (normalize ?C) = 0
        \<and> raw_id ?B \<notin> set (battledWith (normalize ?A))"
    by (simp add: sample_def normalize_def)
  from mp [OF conjunct2 [OF T] h]
  have "fst (recordBattle (raw_id ?A) (raw_id ?B) (Some (raw_id ?A)) (Stored [?A, ?B, ?C]))
        = setItem [ (normalize ?A)\<lparr>battledWith := battledWith (normalize ?A) @ [raw_id ?B],
                         points := 3, rank := 1\<rparr>,
                    (normalize ?B)\<lparr>battledWith := battledWith (normalize ?B) @ [raw_id ?A], rank := 2\<rparr>,
                    (normalize ?C)\<lparr>rank := 3\<rparr> ]" .
  then have 2: "fst (recordBattle ''a'' ''b'' (Some ''a'') st3)
        = setItem [normalize (sample ''a'' (Some 3) (Some [''b'']))\<lparr>rank := 1\<rparr>,
                   normalize (sample ''b'' (Some 0) (Some [''a'']))\<lparr>rank := 2\<rparr>,
                   normalize (sample ''c'' (Some 0) (Some []))\<lparr>rank := 3\<rparr>]"
    by (simp add: sample_def normalize_def st3_def)
  from 1 ok 2 show ?thesis by simp
qed

section \<open>Points\<close>

lemma sum_points_sortByPoints:
  "sum_list (map points (sortByPoints xs)) = sum_list (map points xs)"
proof -
  have "mset (map points (sortByPoints xs)) = mset (map points xs)" by simp
  then show ?thesis by (metis sum_mset_sum_list)
qed

lemma totalPoints_setItem: "totalPoints (setItem xs) = sum_list (map points xs)"
  by (simp add: totalPoints_def getAlbums_setItem sum_points_sortByPoints)

lemma sum_points_nth: "sum_list (map points xs) = (\<Sum>k = 0..<length xs. points (xs ! k))"
  unfolding sum_list_sum_nth by (rule sum.cong) simp_all

lemma sum_indicator:
  "i < (n::nat) \<Longrightarrow> (\<Sum>k = 0..<n. if k = i then (c::int) else 0) = c"
  by (simp add: sum.delta)

lemma scored_sum:
  assumes sc: "scoreBattle i1 i2 w xs = Inr (zs, refs)" and 1: "i1 < length xs" and 2: "i2 < length xs"
  shows "sum_list (map points zs) = sum_list (map points xs) + (if w = None then 2 else 3)"
proof -
  let ?d = "\<lambda>k. (if w = None then (if k = i1 then 1 else 0) + (if k = i2 then 1 else 0)
            else if w = Some (id' (xs ! i1)) then (if k = i1 then 3 else 0)
            else (if k = i2 then 3 else 0)) :: int"
  have len: "length zs = length xs" by (rule scoreBattle_Inr(1) [OF sc 1 2])
  have pt: "\<forall>k<length xs. points (zs ! k) = points (xs ! k) + ?d k"
    by (rule scoreBattle_Inr(5) [OF sc 1 2])
  have "sum_list (map points zs) = (\<Sum>k = 0..<length xs. points (zs ! k))"
    by (simp only: sum_points_nth len)
  also have "\<dots> = (\<Sum>k = 0..<length xs. points (xs ! k) + ?d k)"
    using pt by (intro sum.cong) auto
  also have "\<dots> = (\<Sum>k = 0..<length xs. points (xs ! k)) + (\<Sum>k = 0..<length xs. ?d k)"
    by (rule sum.distrib)
  also have "(\<Sum>k = 0..<length xs. ?d k) = (if w = None then 2 else 3)"
  proof (cases "w = None")
    case True
    then have "(\<Sum>k = 0..<length xs. ?d k)
       = (\<Sum>k = 0..<length xs. (if k = i1 then 1 else 0) + (if k = i2 then (1::int) else 0))"
      by simp
    also have "\<dots> = (\<Sum>k = 0..<length xs. if k = i1 then (1::int) else 0)
                    + (\<Sum>k = 0..<length xs. if k = i2 then (1::int) else 0)"
      by (rule sum.distrib)
    also have "\<dots> = 2" using 1 2 by (simp add: sum_indicator)
    finally show ?thesis using True by simp
  next
    case False
    then obtain v where v: "w = Some v" by auto
    show ?thesis
    proof (cases "v = id' (xs ! i1)")
      case True
      with v have "(\<Sum>k = 0..<length xs. ?d k) = (\<Sum>k = 0..<length xs. if k = i1 then (3::int) else 0)"
        by simp
      also have "\<dots> = 3" using 1 by (rule sum_indicator)
      finally show ?thesis using v by simp
    next
      case n: False
      with v have "(\<Sum>k = 0..<length xs. ?d k) = (\<Sum>k = 0..<length xs. if k = i2 then (3::int) else 0)"
        by simp
      also have "\<dots> = 3" using 2 by (rule sum_indicator)
      finally show ?thesis using v by simp
    qed
  qed
  finally show ?thesis by (simp only: sum_points_nth)
qed

lemma recordBattle_total:
  assumes "recordBattle a b w st = (st', Inr r)"
  shows "totalPoints st' = totalPoints st + (if w = None then 2 else 3)"
proof -
  from recordBattle_Inr [OF assms] obtain i1 i2 zs refs where
    i1: "findIndex (\<lambda>x. id' x = a) (getAlbums st) = Some i1" and
    i2: "findIndex (\<lambda>x. id' x = b) (getAlbums st) = Some i2" and
    sc: "scoreBattle i1 i2 w (getAlbums st) = Inr (zs, refs)" and
    st': "st' = setItem (assignRanks 0 (sortByPoints zs))"
    by blast
  have l1: "i1 < length (getAlbums st)" and l2: "i2 < length (getAlbums st)"
    using findIndex_Some [OF i1] findIndex_Some [OF i2] by simp_all
  have "totalPoints st' = sum_list (map points zs)"
    by (simp add: st' totalPoints_setItem sum_points_sortByPoints)
  with scored_sum [OF sc l1 l2] show ?thesis by (simp add: totalPoints_def)
qed

lemma runBattles_total:
  "runBattles bs st = Some st' \<Longrightarrow>
   totalPoints st' = totalPoints st + 3 * int (length (filter (\<lambda>b. \<not> isDrawn b) bs))
                                    + 2 * int (length (filter isDrawn bs))"
proof (induction bs arbitrary: st)
  case Nil
  then show ?case by simp
next
  case (Cons x bs)
  obtain a b w where x: "x = (a, b, w)" by (cases x)
  from Cons.prems x obtain st1 r where
    step: "recordBattle a b w st = (st1, Inr r)" and rest: "runBattles bs st1 = Some st'"
    by (auto split: prod.splits sum.splits)
  from Cons.IH [OF rest] recordBattle_total [OF step] x
  show ?case by (simp add: isDrawn_def)
qed

lemma sum_points_zero: "\<forall>x\<in>set xs. points x = 0 \<Longrightarrow> sum_list (map points xs) = 0"
  by (induction xs) auto

lemma totalPoints_zero: "\<forall>x\<in>set (getAlbums st). points x = 0 \<Longrightarrow> totalPoints st = 0"
  by (simp add: totalPoints_def sum_points_zero)


lemma mset_getAlbums_setItem:
  "mset (map eraseRank (getAlbums (setItem ys))) = mset (map eraseRank ys)"
  by (simp add: getAlbums_setItem)

lemma scoring_step:
  assumes "recordBattle a b w st = (st', Inr r)"
  shows "\<exists>i1 i2 zs refs.
        findIndex (\<lambda>x. id' x = a) (getAlbums st) = Some i1
      \<and> findIndex (\<lambda>x. id' x = b) (getAlbums st) = Some i2
      \<and> scoreBattle i1 i2 w (getAlbums st) = Inr (zs, refs)
      \<and> length zs = length (getAlbums st)
      \<and> (\<forall>k<length (getAlbums st). points (zs ! k) = points (getAlbums st ! k) +
            (if w = None then (if k = i1 then 1 else 0) + (if k = i2 then 1 else 0)
             else if w = Some a then (if k = i1 then 3 else 0)
             else (if k = i2 then 3 else 0)))
      \<and> mset (map eraseRank (getAlbums st')) = mset (map eraseRank zs)
      \<and> totalPoints st' = totalPoints st + (if w = None then 2 else 3)"
proof -
  from recordBattle_Inr [OF assms] obtain i1 i2 zs refs where
    i1: "findIndex (\<lambda>x. id' x = a) (getAlbums st) = Some i1" and
    i2: "findIndex (\<lambda>x. id' x = b) (getAlbums st) = Some i2" and
    sc: "scoreBattle i1 i2 w (getAlbums st) = Inr (zs, refs)" and
    st': "st' = setItem (assignRanks 0 (sortByPoints zs))"
    by blast
  have l1: "i1 < length (getAlbums st)" and a: "id' (getAlbums st ! i1) = a"
    using findIndex_Some [OF i1] by simp_all
  have l2: "i2 < length (getAlbums st)"
    using findIndex_Some [OF i2] by simp
  have "length zs = length (getAlbums st)" by (rule scoreBattle_Inr(1) [OF sc l1 l2])
  moreover have "\<forall>k<length (getAlbums st). points (zs ! k) = points (getAlbums st ! k) +
            (if w = None then (if k = i1 then 1 else 0) + (if k = i2 then 1 else 0)
             else if w = Some a then (if k = i1 then 3 else 0)
             else (if k = i2 then 3 else 0))"
    using scoreBattle_Inr(5) [OF sc l1 l2] by (simp only: a)
  moreover have "mset (map eraseRank (getAlbums st')) = mset (map eraseRank zs)"
    by (simp only: st' mset_getAlbums_setItem mset_eraseRank_sort)
  moreover note recordBattle_total [OF assms]
  ultimately show ?thesis using i1 i2 sc by blast
qed

text \<open>
  Claim C4. In a successful \<^verbatim>\<open>recordBattle\<close> the scoring phase changes the points as
  follows: on a draw the object at each of the two indices gets 1 point (once per index);
  otherwise the winner's object gets 3 and the other nothing; no other album's points
  change, and the slot written holds the scored albums. The sum of all points grows by 2
  on a draw and by 3 otherwise, so from a collection where every album has 0 points, any
  sequence of successful battles leaves the sum at 3 times the number of decisive battles
  plus 2 times the number of draws.
\<close>

theorem recordBattle_scoring:
  "(recordBattle a b w st = (st', Inr r) \<longrightarrow>
     (\<exists>i1 i2 zs refs.
        findIndex (\<lambda>x. id' x = a) (getAlbums st) = Some i1
      \<and> findIndex (\<lambda>x. id' x = b) (getAlbums st) = Some i2
      \<and> scoreBattle i1 i2 w (getAlbums st) = Inr (zs, refs)
      \<and> length zs = length (getAlbums st)
      \<and> (\<forall>k<length (getAlbums st). points (zs ! k) = points (getAlbums st ! k) +
            (if w = None then (if k = i1 then 1 else 0) + (if k = i2 then 1 else 0)
             else if w = Some a then (if k = i1 then 3 else 0)
             else (if k = i2 then 3 else 0)))
      \<and> mset (map eraseRank (getAlbums st')) = mset (map eraseRank zs)
      \<and> totalPoints st' = totalPoints st + (if w = None then 2 else 3)))
   \<and> ((\<forall>x\<in>set (getAlbums st). points x = 0) \<and> runBattles bs st = Some st'' \<longrightarrow>
        totalPoints st'' = 3 * int (length (filter (\<lambda>b. \<not> isDrawn b) bs))
                         + 2 * int (length (filter isDrawn bs)))"
proof (intro conjI impI)
  assume "recordBattle a b w st = (st', Inr r)"
  then show "\<exists>i1 i2 zs refs.
        findIndex (\<lambda>x. id' x = a) (getAlbums st) = Some i1
      \<and> findIndex (\<lambda>x. id' x = b) (getAlbums st) = Some i2
      \<and> scoreBattle i1 i2 w (getAlbums st) = Inr (zs, refs)
      \<and> length zs = length (getAlbums st)
      \<and> (\<forall>k<length (getAlbums st). points (zs ! k) = points (getAlbums st ! k) +
            (if w = None then (if k = i1 then 1 else 0) + (if k = i2 then 1 else 0)
             else if w = Some a then (if k = i1 then 3 else 0)
             else (if k = i2 then 3 else 0)))
      \<and> mset (map eraseRank (getAlbums st')) = mset (map eraseRank zs)
      \<and> totalPoints st' = totalPoints st + (if w = None then 2 else 3)"
    by (rule scoring_step)
next
  assume h: "(\<forall>x\<in>set (getAlbums st). points x = 0) \<and> runBattles bs st = Some st''"
  then have "totalPoints st = 0" by (simp add: totalPoints_zero)
  with runBattles_total [of bs st st''] h
  show "totalPoints st'' = 3 * int (length (filter (\<lambda>b. \<not> isDrawn b) bs))
                         + 2 * int (length (filter isDrawn bs))"
    by simp
qed

lemma getAlbums_st3:
  "getAlbums st3 = [normalize (sample ''a'' None None)\<lparr>rank := 1\<rparr>,
      normalize (sample ''b'' (Some 0) (Some []))\<lparr>rank := 2\<rparr>,
      normalize (sample ''c'' (Some 0) None)\<lparr>rank := 3\<rparr>]"
  by (simp add: st3_def getAlbums_def sortByPoints_def normalize_def sample_def)

lemma runBattles_st3:
  "\<exists>st''. runBattles [(''a'', ''b'', Some ''a''), (''b'', ''c'', None)] st3 = Some st''"
  by (simp add: recordBattle_def st3_def getAlbums_def sortByPoints_def normalize_def sample_def
       scoreBattle_def pushBattledWith_def addPoints_def Let_def setItem_def toStored_def)

theorem recordBattle_scoring_witness:
  "(\<exists>st' r. recordBattle ''a'' ''b'' (Some ''a'') st3 = (st', Inr r)
        \<and> totalPoints st' = totalPoints st3 + 3)
   \<and> map points (getAlbums st3) = [0, 0, 0]
   \<and> (\<exists>st''. runBattles [(''a'', ''b'', Some ''a''), (''b'', ''c'', None)] st3 = Some st''
        \<and> totalPoints st'' = 5)"
proof -
  let ?bs = "[(''a'', ''b'', Some ''a''), (''b'', ''c'', None)]"
  obtain st' r where ok: "recordBattle ''a'' ''b'' (Some ''a'') st3 = (st', Inr r)"
    using recordBattle_st3_succeeds by blast
  obtain st'' where run: "runBattles ?bs st3 = Some st''"
    using runBattles_st3 by blast
  have p: "map points (getAlbums st3) = [0, 0, 0]"
    by (simp add: getAlbums_st3 normalize_def sample_def)
  have z: "\<forall>x\<in>set (getAlbums st3). points x = 0"
    by (simp add: getAlbums_st3 normalize_def sample_def)
  note T = recordBattle_scoring [of "''a''" "''b''" "Some ''a''" st3 st' r ?bs st'']
  from mp [OF conjunct1 [OF T] ok] have 1: "totalPoints st' = totalPoints st3 + 3"
    by auto
  from mp [OF conjunct2 [OF T] conjI [OF z run]]
  have 2: "totalPoints st'' = 5" by (simp add: isDrawn_def)
  from ok 1 p run 2 show ?thesis by blast
qed

section \<open>Battling a pair twice\<close>

lemma findIndex_cong_map: "map P xs = map P ys \<Longrightarrow> findIndex P xs = findIndex P ys"
proof (induction xs arbitrary: ys)
  case Nil
  then show ?case by simp
next
  case (Cons x xs)
  then obtain y ys' where "ys = y # ys'" by (cases ys) auto
  with Cons show ?case by auto
qed

lemma findIndex_same_ids:
  assumes "map id' (zs::album list) = map id' (xs::album list)"
  shows "findIndex (\<lambda>x. id' x = a) zs = findIndex (\<lambda>x. id' x = a) xs"
proof -
  have "map (\<lambda>s. s = a) (map id' zs) = map (\<lambda>s. s = a) (map id' xs)"
    using assms by simp
  then have "map (\<lambda>x. id' x = a) zs = map (\<lambda>x. id' x = a) xs" by (simp add: comp_def)
  then show ?thesis by (rule findIndex_cong_map)
qed

lemma findIndex_assignRanks:
  assumes "\<And>x r. P (x\<lparr>rank := r\<rparr>) = P x"
  shows "findIndex P (assignRanks i xs) = findIndex P xs"
  by (rule findIndex_cong_map) (rule map_assignRanks, rule assms)

lemma filter_from_findIndex:
  "findIndex P xs = Some i \<Longrightarrow> filter P xs = xs ! i # filter P (drop (Suc i) xs)"
proof (induction xs arbitrary: i)
  case Nil
  then show ?case by simp
next
  case (Cons x xs)
  then show ?case by (cases "P x") auto
qed

lemma findIndex_from_filter:
  "filter P ys = y # rest \<Longrightarrow> \<exists>k. findIndex P ys = Some k \<and> ys ! k = y"
proof (induction ys)
  case Nil
  then show ?case by simp
next
  case (Cons x ys)
  then show ?case by (cases "P x") auto
qed

lemma first_stays_first:
  assumes fi: "findIndex P zs = Some i"
    and le: "\<forall>k. i < k \<and> k < length zs \<and> P (zs ! k) \<longrightarrow> points (zs ! k) \<le> points (zs ! i)"
  shows "\<exists>k. findIndex P (sortByPoints zs) = Some k \<and> sortByPoints zs ! k = zs ! i"
proof -
  let ?f = "\<lambda>a. - points a"
  let ?R = "filter P (drop (Suc i) zs)"
  have "filter P (sortByPoints zs) = sort_key ?f (filter P zs)"
    by (simp add: sortByPoints_def filter_sort)
  also have "\<dots> = insort_key ?f (zs ! i) (sort_key ?f ?R)"
    by (simp add: filter_from_findIndex [OF fi])
  also have "\<dots> = zs ! i # sort_key ?f ?R"
  proof (rule insort_is_Cons)
    show "\<forall>x\<in>set (sort_key ?f ?R). ?f (zs ! i) \<le> ?f x"
    proof
      fix x assume "x \<in> set (sort_key ?f ?R)"
      then have "x \<in> set (drop (Suc i) zs)" and px: "P x" by auto
      then obtain j where "j < length (drop (Suc i) zs)" "drop (Suc i) zs ! j = x"
        by (auto simp: in_set_conv_nth)
      then have "Suc i \<le> Suc i + j \<and> Suc i + j < length zs \<and> zs ! (Suc i + j) = x"
        by auto
      then obtain k where "Suc i \<le> k" "k < length zs" "zs ! k = x" by blast
      with le px show "?f (zs ! i) \<le> ?f x" by auto
    qed
  qed
  finally show ?thesis by (rule findIndex_from_filter)
qed

lemma getAlbums_after_battle:
  "getAlbums (setItem (assignRanks 0 (sortByPoints zs))) = assignRanks 0 (sortByPoints zs)"
proof -
  have "sorted (map (\<lambda>a. - points a) (assignRanks 0 (sortByPoints zs)))"
    by (simp only: sorted_assignRanks sorted_sortByPoints)
  then have "sortByPoints (assignRanks 0 (sortByPoints zs)) = assignRanks 0 (sortByPoints zs)"
    by (rule sortByPoints_id)
  then show ?thesis by (simp add: getAlbums_setItem)
qed

lemma sorted_getAlbums_nth:
  "i < k \<Longrightarrow> k < length (getAlbums st) \<Longrightarrow> points (getAlbums st ! k) \<le> points (getAlbums st ! i)"
  using sorted_wrt_points [OF sorted_getAlbums [of st]] by (simp add: sorted_wrt_iff_nth_less)

text \<open>After a successful battle the first album with id a holds b, and conversely.\<close>

lemma first_keeps_record:
  assumes i1: "findIndex (\<lambda>x. id' x = a) (getAlbums st) = Some i1"
    and i2: "findIndex (\<lambda>x. id' x = b) (getAlbums st) = Some i2"
    and sc: "scoreBattle i1 i2 w (getAlbums st) = Inr (zs, refs)"
  shows "\<exists>k. findIndex (\<lambda>x. id' x = a) (assignRanks 0 (sortByPoints zs)) = Some k
           \<and> id' (assignRanks 0 (sortByPoints zs) ! k) = a
           \<and> b \<in> set (battledWith (assignRanks 0 (sortByPoints zs) ! k))"
    and "\<exists>k. findIndex (\<lambda>x. id' x = b) (assignRanks 0 (sortByPoints zs)) = Some k
           \<and> id' (assignRanks 0 (sortByPoints zs) ! k) = b
           \<and> a \<in> set (battledWith (assignRanks 0 (sortByPoints zs) ! k))"
proof -
  let ?xs = "getAlbums st"
  have l1: "i1 < length ?xs" and a: "id' (?xs ! i1) = a"
    using findIndex_Some [OF i1] by simp_all
  have l2: "i2 < length ?xs" and b: "id' (?xs ! i2) = b"
    using findIndex_Some [OF i2] by simp_all
  note S = scoreBattle_Inr [OF sc l1 l2]
  have len: "length zs = length ?xs" by (rule S(1))
  have ids: "map id' zs = map id' ?xs" by (rule S(2))
  have idk: "id' (zs ! k) = id' (?xs ! k)" if "k < length ?xs" for k
  proof -
    have "map id' zs ! k = map id' ?xs ! k" by (simp only: ids)
    with that len show ?thesis by simp
  qed
  have ge: "points (?xs ! k) \<le> points (zs ! k)" if "k < length ?xs" for k
    using S(5) that by auto
  have same: "points (zs ! k) = points (?xs ! k)" if "k < length ?xs" "k \<noteq> i1" "k \<noteq> i2" for k
    using S(5) that by auto
  have bw1: "b \<in> set (battledWith (zs ! i1))" using S(6) l1 b by auto
  have bw2: "a \<in> set (battledWith (zs ! i2))" using S(6) l2 a by auto
  have fz1: "findIndex (\<lambda>x. id' x = a) zs = Some i1"
    using findIndex_same_ids [OF ids, of a] i1 by simp
  have fz2: "findIndex (\<lambda>x. id' x = b) zs = Some i2"
    using findIndex_same_ids [OF ids, of b] i2 by simp
  have le1: "\<forall>k. i1 < k \<and> k < length zs \<and> id' (zs ! k) = a \<longrightarrow> points (zs ! k) \<le> points (zs ! i1)"
  proof (intro allI impI)
    fix k assume k: "i1 < k \<and> k < length zs \<and> id' (zs ! k) = a"
    then have kl: "k < length ?xs" by (simp add: len)
    have "k \<noteq> i2"
    proof
      assume "k = i2"
      with k idk [OF l2] b have "a = b" by simp
      with i1 i2 have "i1 = i2" by simp
      with \<open>k = i2\<close> k show False by simp
    qed
    with k kl have "points (zs ! k) = points (?xs ! k)" by (intro same) auto
    also have "\<dots> \<le> points (?xs ! i1)" using k kl by (intro sorted_getAlbums_nth) auto
    also have "\<dots> \<le> points (zs ! i1)" by (rule ge [OF l1])
    finally show "points (zs ! k) \<le> points (zs ! i1)" .
  qed
  have le2: "\<forall>k. i2 < k \<and> k < length zs \<and> id' (zs ! k) = b \<longrightarrow> points (zs ! k) \<le> points (zs ! i2)"
  proof (intro allI impI)
    fix k assume k: "i2 < k \<and> k < length zs \<and> id' (zs ! k) = b"
    then have kl: "k < length ?xs" by (simp add: len)
    have "k \<noteq> i1"
    proof
      assume "k = i1"
      with k idk [OF l1] a have "a = b" by simp
      with i1 i2 have "i1 = i2" by simp
      with \<open>k = i1\<close> k show False by simp
    qed
    with k kl have "points (zs ! k) = points (?xs ! k)" by (intro same) auto
    also have "\<dots> \<le> points (?xs ! i2)" using k kl by (intro sorted_getAlbums_nth) auto
    also have "\<dots> \<le> points (zs ! i2)" by (rule ge [OF l2])
    finally show "points (zs ! k) \<le> points (zs ! i2)" .
  qed
  let ?S = "sortByPoints zs"
  from first_stays_first [OF fz1 le1] obtain k1 where
    k1: "findIndex (\<lambda>x. id' x = a) ?S = Some k1" and e1: "?S ! k1 = zs ! i1" by blast
  from first_stays_first [OF fz2 le2] obtain k2 where
    k2: "findIndex (\<lambda>x. id' x = b) ?S = Some k2" and e2: "?S ! k2 = zs ! i2" by blast
  have kl1: "k1 < length ?S" using findIndex_Some [OF k1] by simp
  have kl2: "k2 < length ?S" using findIndex_Some [OF k2] by simp
  have f1: "findIndex (\<lambda>x. id' x = a) (assignRanks 0 ?S) = Some k1"
    using k1 by (simp add: findIndex_assignRanks)
  have f2: "findIndex (\<lambda>x. id' x = b) (assignRanks 0 ?S) = Some k2"
    using k2 by (simp add: findIndex_assignRanks)
  have "id' (assignRanks 0 ?S ! k1) = a" using findIndex_Some [OF f1] by simp
  moreover have "battledWith (assignRanks 0 ?S ! k1) = battledWith (zs ! i1)"
    using kl1 e1 by (simp add: nth_assignRanks)
  ultimately show "\<exists>k. findIndex (\<lambda>x. id' x = a) (assignRanks 0 ?S) = Some k
           \<and> id' (assignRanks 0 ?S ! k) = a \<and> b \<in> set (battledWith (assignRanks 0 ?S ! k))"
    using f1 bw1 by auto
  have "id' (assignRanks 0 ?S ! k2) = b" using findIndex_Some [OF f2] by simp
  moreover have "battledWith (assignRanks 0 ?S ! k2) = battledWith (zs ! i2)"
    using kl2 e2 by (simp add: nth_assignRanks)
  ultimately show "\<exists>k. findIndex (\<lambda>x. id' x = b) (assignRanks 0 ?S) = Some k
           \<and> id' (assignRanks 0 ?S ! k) = b \<and> a \<in> set (battledWith (assignRanks 0 ?S ! k))"
    using f2 bw2 by auto
qed

lemma battle_records_pair:
  assumes "recordBattle a b w st = (st', Inr r)"
  shows "alreadyBattled st' a b"
proof -
  from recordBattle_Inr [OF assms] obtain i1 i2 zs refs where
    i1: "findIndex (\<lambda>x. id' x = a) (getAlbums st) = Some i1" and
    i2: "findIndex (\<lambda>x. id' x = b) (getAlbums st) = Some i2" and
    sc: "scoreBattle i1 i2 w (getAlbums st) = Inr (zs, refs)" and
    st': "st' = setItem (assignRanks 0 (sortByPoints zs))"
    by blast
  have g: "getAlbums st' = assignRanks 0 (sortByPoints zs)"
    by (simp only: st' getAlbums_after_battle)
  from first_keeps_record [OF i1 i2 sc] show ?thesis
    unfolding alreadyBattled_def g Let_def by auto
qed

lemma alreadyBattled_fails:
  assumes "alreadyBattled st a b"
  shows "\<exists>t1 t2. recordBattle a b w st = (st, Inl (AlreadyBattledError t1 t2))"
  using assms unfolding alreadyBattled_def recordBattle_def scoreBattle_def Let_def
  by (auto split: option.splits)

lemma alreadyBattled_sym: "alreadyBattled st a b \<Longrightarrow> alreadyBattled st b a"
  unfolding alreadyBattled_def Let_def by (auto split: option.splits)


text \<open>
  Claim C5. A successful \<^verbatim>\<open>recordBattle\<close> on \<open>a\<close> and \<open>b\<close> leaves the pair recorded as
  battled; and whenever a pair is recorded as battled, \<^verbatim>\<open>recordBattle\<close> on it, in either
  argument order and with any winner, throws the already-battled error and the slot is what
  it was.
\<close>

theorem recordBattle_twice:
  "(alreadyBattled st a b \<longrightarrow>
      (\<exists>t1 t2. recordBattle a b w st = (st, Inl (AlreadyBattledError t1 t2)))
    \<and> (\<exists>t1 t2. recordBattle b a w st = (st, Inl (AlreadyBattledError t1 t2))))
   \<and> (recordBattle a b w0 st0 = (st1, Inr r) \<longrightarrow>
      alreadyBattled st1 a b
    \<and> (\<exists>t1 t2. recordBattle a b w st1 = (st1, Inl (AlreadyBattledError t1 t2)))
    \<and> (\<exists>t1 t2. recordBattle b a w st1 = (st1, Inl (AlreadyBattledError t1 t2))))"
proof (intro conjI impI)
  assume h: "alreadyBattled st a b"
  then show "\<exists>t1 t2. recordBattle a b w st = (st, Inl (AlreadyBattledError t1 t2))"
    by (rule alreadyBattled_fails)
  from alreadyBattled_sym [OF h]
  show "\<exists>t1 t2. recordBattle b a w st = (st, Inl (AlreadyBattledError t1 t2))"
    by (rule alreadyBattled_fails)
next
  assume "recordBattle a b w0 st0 = (st1, Inr r)"
  then have h: "alreadyBattled st1 a b" by (rule battle_records_pair)
  then show "alreadyBattled st1 a b" .
  from h show "\<exists>t1 t2. recordBattle a b w st1 = (st1, Inl (AlreadyBattledError t1 t2))"
    by (rule alreadyBattled_fails)
  from alreadyBattled_sym [OF h]
  show "\<exists>t1 t2. recordBattle b a w st1 = (st1, Inl (AlreadyBattledError t1 t2))"
    by (rule alreadyBattled_fails)
qed

theorem recordBattle_twice_witness:
  "\<exists>st1 r. recordBattle ''a'' ''b'' (Some ''a'') st3 = (st1, Inr r)
      \<and> alreadyBattled st1 ''a'' ''b''
      \<and> (\<exists>t1 t2. recordBattle ''a'' ''b'' None st1 = (st1, Inl (AlreadyBattledError t1 t2)))
      \<and> (\<exists>t1 t2. recordBattle ''b'' ''a'' None st1 = (st1, Inl (AlreadyBattledError t1 t2)))"
proof -
  obtain st1 r where ok: "recordBattle ''a'' ''b'' (Some ''a'') st3 = (st1, Inr r)"
    using recordBattle_st3_succeeds by blast
  note T = recordBattle_twice [of st1 "''a''" "''b''" None "Some ''a''" st3 st1 r]
  from mp [OF conjunct2 [OF T] ok] have ab: "alreadyBattled st1 ''a'' ''b''" by (rule conjunct1)
  from mp [OF conjunct1 [OF T] ab] ok ab show ?thesis by blast
qed

section \<open>A battle of an album with itself\<close>

text \<open>
  Claim C9, evaluated where it fails. The collection holds the single album \<open>a\<close>, which has
  battled nobody. \<^verbatim>\<open>recordBattle(a, a, null)\<close> succeeds: \<^verbatim>\<open>album1\<close> and \<^verbatim>\<open>album2\<close> are the
  same object, its own id is pushed to its \<^verbatim>\<open>battledWith\<close> twice and it gets 2 points.
  The slot written holds an album whose \<^verbatim>\<open>battledWith\<close> contains its own id.
\<close>

theorem recordBattle_self:
  "getAlbums (Stored [sample ''a'' None None]) = [normalize (sample ''a'' (Some 0) (Some []))\<lparr>rank := 1\<rparr>]
   \<and> recordBattle ''a'' ''a'' None (Stored [sample ''a'' None None])
       = (Stored [(sample ''a'' (Some 2) (Some [''a'', ''a'']))\<lparr>raw_rank := 1\<rparr>],
          Inr \<lparr> winner = None, loser = None, isDraw = True, winnerPoints = 1, loserPoints = 1 \<rparr>)
   \<and> id' (getAlbums (fst (recordBattle ''a'' ''a'' None (Stored [sample ''a'' None None]))) ! 0) = ''a''
   \<and> ''a'' \<in> set (battledWith
         (getAlbums (fst (recordBattle ''a'' ''a'' None (Stored [sample ''a'' None None]))) ! 0))"
  by (simp add: recordBattle_def getAlbums_def sortByPoints_def normalize_def sample_def
       scoreBattle_def pushBattledWith_def addPoints_def Let_def setItem_def toStored_def deref_def)

section \<open>Adding an album\<close>

text \<open>
  Claim C8. When an album of the collection already has the catalogue key (\<^verbatim>\<open>mbid\<close>) of the
  search result, \<^verbatim>\<open>addAlbum\<close> throws the duplicate error and the slot is what it was.
\<close>

theorem addAlbum_duplicate:
  assumes "x \<in> set (getAlbums st)" and "mbid x = sr_id albumData"
  shows "addAlbum albumData now st = (st, Inl (DuplicateError (sr_title albumData)))"
proof -
  have "find (\<lambda>a. mbid a = sr_id albumData) (getAlbums st) \<noteq> None"
    using assms by (auto simp: find_None_iff)
  then show ?thesis by (auto simp: addAlbum_def)
qed

theorem addAlbum_duplicate_witness:
  "addAlbum exSearch 5 exStore = (exStore, Inl (DuplicateError ''Again''))"
proof -
  let ?x = "normalize (sample ''b'' (Some 4) (Some []))\<lparr>rank := 1\<rparr>"
  have h1: "?x \<in> set (getAlbums exStore)" by (simp add: getAlbums_exStore)
  have h2: "mbid ?x = sr_id exSearch" by (simp add: normalize_def sample_def exSearch_def)
  from addAlbum_duplicate [OF h1 h2, of 5] show ?thesis by (simp add: exSearch_def)
qed

section \<open>The next battle\<close>

lemma fold_push:
  "fold (\<lambda>j acc. if Q j then acc @ [g j] else acc) js acc = acc @ map g (filter Q js)"
  by (induction js arbitrary: acc) auto

lemma innerLoop_eq:
  "innerLoop albums i acc =
     acc @ map (\<lambda>j. (albums ! i, albums ! j))
             (filter (\<lambda>j. id' (albums ! j) \<notin> set (battledWith (albums ! i))) [Suc i..<length albums])"
  unfolding innerLoop_def by (rule fold_push)

lemma outerLoop_eq:
  "fold (innerLoop albums) is acc =
     acc @ concat (map (\<lambda>i. map (\<lambda>j. (albums ! i, albums ! j))
                         (filter (\<lambda>j. id' (albums ! j) \<notin> set (battledWith (albums ! i)))
                                 [Suc i..<length albums])) is)"
  by (induction "is" arbitrary: acc) (simp_all add: innerLoop_eq)

lemma getPossibleBattles_eq: "getPossibleBattles st = unplayedPairs (getAlbums st)"
  by (simp add: getPossibleBattles_def unplayedPairs_def outerLoop_eq Let_def)

lemma unplayedPairs_Nil:
  "unplayedPairs xs = [] \<longleftrightarrow>
     (\<forall>i j. i < j \<and> j < length xs \<longrightarrow> id' (xs ! j) \<in> set (battledWith (xs ! i)))"
  by (auto simp: unplayedPairs_def filter_empty_conv)

lemma getNextBattle_eq:
  "getNextBattle st = (case unplayedPairs (getAlbums st) of [] \<Rightarrow> None | p # ps \<Rightarrow> Some p)"
  by (simp add: getNextBattle_def getPossibleBattles_eq)

lemma getNextBattle_None:
  "getNextBattle st = None \<longleftrightarrow>
    (\<forall>i j. i < j \<and> j < length (getAlbums st) \<longrightarrow>
        id' (getAlbums st ! j) \<in> set (battledWith (getAlbums st ! i)))"
  by (simp add: getNextBattle_eq unplayedPairs_Nil [symmetric] split: list.splits)

lemma mutual_imp_None: "allPairsMutual (getAlbums st) \<Longrightarrow> getNextBattle st = None"
  unfolding getNextBattle_None allPairsMutual_def by auto

lemma None_imp_mutual:
  "symmetricBattles (getAlbums st) \<Longrightarrow> getNextBattle st = None \<Longrightarrow> allPairsMutual (getAlbums st)"
  unfolding getNextBattle_None allPairsMutual_def symmetricBattles_def by auto

text \<open>
  On a collection whose relation is symmetric, \<^verbatim>\<open>null\<close> is returned if and only if every
  pair is recorded mutually.
\<close>

lemma getNextBattle_symmetric:
  "symmetricBattles (getAlbums st) \<Longrightarrow>
     (getNextBattle st = None \<longleftrightarrow> allPairsMutual (getAlbums st))"
  using mutual_imp_None [of st] None_imp_mutual [of st] by blast

text \<open>
  Claim C6, as the code has it. \<^verbatim>\<open>getPossibleBattles\<close> is the enumeration of unplayed
  pairs, outer index ascending and inner index ascending above it, and \<^verbatim>\<open>getNextBattle\<close>
  is its first pair, or \<^verbatim>\<open>null\<close> when it is empty. It is \<^verbatim>\<open>null\<close> if and only if for
  every pair of positions \<open>i < j\<close> the earlier album holds the later one's id; so a complete
  round robin, every pair recorded in both directions, gives \<^verbatim>\<open>null\<close>.
\<close>

theorem getNextBattle_round_robin:
  "getPossibleBattles st = unplayedPairs (getAlbums st)
   \<and> getNextBattle st = (case unplayedPairs (getAlbums st) of [] \<Rightarrow> None | p # ps \<Rightarrow> Some p)
   \<and> (getNextBattle st = None \<longleftrightarrow>
        (\<forall>i j. i < j \<and> j < length (getAlbums st) \<longrightarrow>
           id' (getAlbums st ! j) \<in> set (battledWith (getAlbums st ! i))))
   \<and> (allPairsMutual (getAlbums st) \<longrightarrow> getNextBattle st = None)"
  using getPossibleBattles_eq [of st] getNextBattle_eq [of st] getNextBattle_None [of st]
    mutual_imp_None [of st]
  by blast

lemma st2_complete: "allPairsMutual (getAlbums st2)"
  by code_simp

lemma st3_open:
  "unplayedPairs (getAlbums st3)
       = [(getAlbums st3 ! 0, getAlbums st3 ! 1), (getAlbums st3 ! 0, getAlbums st3 ! 2),
          (getAlbums st3 ! 1, getAlbums st3 ! 2)]"
  by code_simp

theorem getNextBattle_round_robin_witness:
  "allPairsMutual (getAlbums st2) \<and> getNextBattle st2 = None
   \<and> getNextBattle st3 = Some (getAlbums st3 ! 0, getAlbums st3 ! 1)
   \<and> (\<exists>i j. i < j \<and> j < length (getAlbums st3)
         \<and> id' (getAlbums st3 ! j) \<notin> set (battledWith (getAlbums st3 ! i)))"
proof -
  note T2 = getNextBattle_round_robin [of st2]
  note T3 = getNextBattle_round_robin [of st3]
  have m2: "allPairsMutual (getAlbums st2)" by (rule st2_complete)
  from T2 m2 have n2: "getNextBattle st2 = None" by blast
  from T3 have "getNextBattle st3
       = (case unplayedPairs (getAlbums st3) of [] \<Rightarrow> None | p # ps \<Rightarrow> Some p)"
    by blast
  then have f3: "getNextBattle st3 = Some (getAlbums st3 ! 0, getAlbums st3 ! 1)"
    using st3_open by simp
  then have n3: "getNextBattle st3 \<noteq> None" by simp
  with T3 have e3: "\<exists>i j. i < j \<and> j < length (getAlbums st3)
         \<and> id' (getAlbums st3 ! j) \<notin> set (battledWith (getAlbums st3 ! i))"
    by blast
  from m2 n2 f3 e3 show ?thesis by blast
qed

text \<open>
  The reading with ``mutual'' fails where a pair is recorded in one direction only. In the
  slot \<open>oneDir\<close> the album \<open>a\<close> stands first and holds the id of \<open>b\<close>, while \<open>b\<close> does not
  hold the id of \<open>a\<close>: the pair is not recorded mutually, yet the loop consults only the
  earlier album and \<^verbatim>\<open>getNextBattle\<close> returns \<^verbatim>\<open>null\<close>.
\<close>

theorem getNextBattle_one_direction:
  "getNextBattle oneDir = None
   \<and> id' (getAlbums oneDir ! 0) = ''a'' \<and> id' (getAlbums oneDir ! 1) = ''b''
   \<and> ''b'' \<in> set (battledWith (getAlbums oneDir ! 0))
   \<and> ''a'' \<notin> set (battledWith (getAlbums oneDir ! 1))
   \<and> \<not> allPairsMutual (getAlbums oneDir)"
  by code_simp

section \<open>Manual reorder\<close>

lemma length_shiftRanks [simp]: "length (shiftRanks old new xs) = length xs"
  by (simp add: shiftRanks_def)

lemma nth_shiftRanks:
  "k < length xs \<Longrightarrow> shiftRanks old new xs ! k =
     (xs ! k)\<lparr>rank := (if old < new \<and> old < rank (xs ! k) \<and> rank (xs ! k) \<le> new then rank (xs ! k) - 1
                else if old > new \<and> new \<le> rank (xs ! k) \<and> rank (xs ! k) < old then rank (xs ! k) + 1
                else rank (xs ! k))\<rparr>"
  by (simp add: shiftRanks_def)

lemma updateAlbumRank_found:
  assumes "findIndex (\<lambda>a. id' a = d) (getAlbums st) = Some i"
  shows "\<exists>ys. updateAlbumRank d new st = (setItem ys, Inr (ys ! i))
           \<and> length ys = length (getAlbums st)
           \<and> (\<forall>k<length (getAlbums st). ys ! k =
                 (getAlbums st ! k)\<lparr>rank := newRankOf (rank (getAlbums st ! i)) new (rank (getAlbums st ! k))\<rparr>)"
proof -
  let ?xs = "getAlbums st"
  let ?old = "rank (?xs ! i)"
  let ?a1 = "shiftRanks ?old new ?xs"
  let ?ys = "?a1[i := (?a1 ! i)\<lparr>rank := new\<rparr>]"
  have il: "i < length ?xs" using findIndex_Some [OF assms] by simp
  have u: "updateAlbumRank d new st = (setItem ?ys, Inr (?ys ! i))"
    using assms by (simp add: updateAlbumRank_def Let_def)
  have "\<forall>k<length ?xs. ?ys ! k = (?xs ! k)\<lparr>rank := newRankOf ?old new (rank (?xs ! k))\<rparr>"
  proof (intro allI impI)
    fix k assume k: "k < length ?xs"
    show "?ys ! k = (?xs ! k)\<lparr>rank := newRankOf ?old new (rank (?xs ! k))\<rparr>"
    proof (cases "k = i")
      case True
      with il show ?thesis by (simp add: nth_shiftRanks newRankOf_def)
    next
      case False
      have "rank (?xs ! k) \<noteq> ?old" using False k il by (simp add: rank_getAlbums_nth)
      with False k show ?thesis by (simp add: nth_shiftRanks newRankOf_def)
    qed
  qed
  with u show ?thesis by (intro exI [of _ ?ys]) simp
qed

lemma nth_moveItem:
  assumes "i < length xs" "j < length xs" "p < length xs"
  shows "moveItem i j xs ! p =
     (if p = j then xs ! i
      else if p < j then (if p < i then xs ! p else xs ! Suc p)
      else (if p - 1 < i then xs ! (p - 1) else xs ! p))"
  using assms unfolding moveItem_def Let_def
  by (auto simp: nth_append min_def)

lemma length_moveItem: "i < length xs \<Longrightarrow> j < length xs \<Longrightarrow> length (moveItem i j xs) = length xs"
  unfolding moveItem_def Let_def by auto


lemma newRankOf_pos: "newRankOf (int i + 1) (int j + 1) (int k + 1) = int (newPos i j k) + 1"
  by (auto simp: newRankOf_def newPos_def)

lemma nat_pos: "nat (int p + 1) - 1 = p"
  by simp

lemma newPos_less: "i < n \<Longrightarrow> j < n \<Longrightarrow> k < n \<Longrightarrow> newPos i j k < n"
  by (auto simp: newPos_def)

lemma newPos_inj: "inj (newPos i j)"
  by (auto simp: inj_on_def newPos_def split: if_splits)

lemma moveItem_newPos:
  assumes "i < length xs" "j < length xs" "k < length xs"
  shows "moveItem i j xs ! newPos i j k = xs ! k"
proof -
  have "newPos i j k < length xs" using assms by (rule newPos_less)
  then show ?thesis
    using assms by (simp add: nth_moveItem) (auto simp: newPos_def)
qed

lemma dense_ranks:
  assumes "i < n" "j < n"
  shows "distinct (map (\<lambda>k. int (newPos i j k) + 1) [0..<n])"
    and "set (map (\<lambda>k. int (newPos i j k) + 1) [0..<n]) = {1..int n}"
proof -
  let ?f = "\<lambda>k. int (newPos i j k) + 1"
  have inj: "inj ?f"
  proof (rule injI)
    fix x y assume "?f x = ?f y"
    then have "newPos i j x = newPos i j y" by simp
    then show "x = y" using newPos_inj [of i j] by (simp add: inj_def)
  qed
  show d: "distinct (map ?f [0..<n])"
    by (simp add: distinct_map inj_on_subset [OF inj])
  have sub: "set (map ?f [0..<n]) \<subseteq> {1..int n}"
  proof
    fix r assume "r \<in> set (map ?f [0..<n])"
    then obtain k where k: "k < n" and r: "r = int (newPos i j k) + 1" by auto
    from newPos_less [OF assms k] have "int (newPos i j k) + 1 \<le> int n" by simp
    with r show "r \<in> {1..int n}" by simp
  qed
  have "card (set (map ?f [0..<n])) = n"
    using d by (simp add: distinct_card del: set_map)
  moreover have "card {1..int n} = n" by simp
  ultimately show "set (map ?f [0..<n]) = {1..int n}"
    using sub by (intro card_subset_eq) simp_all
qed

lemma reorder_ranks:
  assumes di: "findIndex (\<lambda>a. id' a = d) (getAlbums st) = Some i"
    and tj: "findIndex (\<lambda>a. id' a = t) (getAlbums st) = Some j"
  shows "\<exists>ys. reorderAlbums d t st = (setItem ys, Inr (getAlbums (setItem ys)))
        \<and> length ys = length (getAlbums st)
        \<and> (\<forall>k<length (getAlbums st). ys ! k =
              (getAlbums st ! k)\<lparr>rank := newRankOf (rank (getAlbums st ! i)) (rank (getAlbums st ! j))
                                             (rank (getAlbums st ! k))\<rparr>)
        \<and> rank (ys ! i) = rank (getAlbums st ! j)
        \<and> distinct (map rank ys)
        \<and> set (map rank ys) = {1..int (length (getAlbums st))}
        \<and> (\<forall>k<length (getAlbums st).
              moveItem i j (getAlbums st) ! (nat (rank (ys ! k)) - 1) = getAlbums st ! k)"
proof -
  let ?xs = "getAlbums st"
  let ?n = "length ?xs"
  have il: "i < ?n" using findIndex_Some [OF di] by simp
  have jl: "j < ?n" using findIndex_Some [OF tj] by simp
  from updateAlbumRank_found [OF di, of "rank (?xs ! j)"] obtain ys where
    u: "updateAlbumRank d (rank (?xs ! j)) st = (setItem ys, Inr (ys ! i))" and
    len: "length ys = ?n" and
    nth: "\<forall>k<?n. ys ! k = (?xs ! k)\<lparr>rank := newRankOf (rank (?xs ! i)) (rank (?xs ! j)) (rank (?xs ! k))\<rparr>"
    by blast
  have r: "reorderAlbums d t st = (setItem ys, Inr (getAlbums (setItem ys)))"
    using di tj u by (simp add: reorderAlbums_def Let_def)
  have rk: "rank (ys ! k) = int (newPos i j k) + 1" if "k < ?n" for k
    using that nth il jl by (simp add: rank_getAlbums_nth newRankOf_pos)
  have mr: "map rank ys = map (\<lambda>k. int (newPos i j k) + 1) [0..<?n]"
    by (rule nth_equalityI) (simp_all add: len rk)
  have "rank (ys ! i) = rank (?xs ! j)"
    using rk [OF il] jl by (simp add: rank_getAlbums_nth newPos_def)
  moreover have "distinct (map rank ys)"
    unfolding mr by (rule dense_ranks(1) [OF il jl])
  moreover have "set (map rank ys) = {1..int ?n}"
    unfolding mr by (rule dense_ranks(2) [OF il jl])
  moreover have "\<forall>k<?n. moveItem i j ?xs ! (nat (rank (ys ! k)) - 1) = ?xs ! k"
  proof (intro allI impI)
    fix k assume k: "k < ?n"
    have "nat (rank (ys ! k)) - 1 = newPos i j k" by (simp only: rk [OF k] nat_pos)
    with moveItem_newPos [OF il jl k]
    show "moveItem i j ?xs ! (nat (rank (ys ! k)) - 1) = ?xs ! k" by simp
  qed
  ultimately show ?thesis using r len nth by blast
qed


text \<open>
  Claim C7. When both ids are found, at positions \<open>i\<close> (moved) and \<open>j\<close> (target) of the
  collection read, \<^verbatim>\<open>reorderAlbums\<close> writes the same albums in the same array order with
  ranks changed by the rule above, \<open>oldRank\<close> being the rank of the moved album and
  \<open>newRank\<close> that of the target. The moved album ends with the target's former rank, the
  ranks written are pairwise different and are exactly 1, ..., N, and the album that
  holds rank \<open>r\<close> is the \<open>r\<close>-th element of the list obtained by moving the element at
  \<open>i\<close> to position \<open>j\<close>.
\<close>

theorem reorderAlbums_ranks:
  assumes di: "findIndex (\<lambda>a. id' a = d) (getAlbums st) = Some i"
    and tj: "findIndex (\<lambda>a. id' a = t) (getAlbums st) = Some j"
  shows "\<exists>ys. reorderAlbums d t st = (setItem ys, Inr (getAlbums (setItem ys)))
        \<and> length ys = length (getAlbums st)
        \<and> (\<forall>k<length (getAlbums st). ys ! k =
              (getAlbums st ! k)\<lparr>rank := newRankOf (rank (getAlbums st ! i)) (rank (getAlbums st ! j))
                                             (rank (getAlbums st ! k))\<rparr>)
        \<and> rank (ys ! i) = rank (getAlbums st ! j)
        \<and> distinct (map rank ys)
        \<and> set (map rank ys) = {1..int (length (getAlbums st))}
        \<and> (\<forall>k<length (getAlbums st).
              moveItem i j (getAlbums st) ! (nat (rank (ys ! k)) - 1) = getAlbums st ! k)"
  using di tj by (rule reorder_ranks)

theorem reorderAlbums_ranks_witness:
  "findIndex (\<lambda>a. id' a = ''c'') (getAlbums st3) = Some 2
   \<and> findIndex (\<lambda>a. id' a = ''a'') (getAlbums st3) = Some 0
   \<and> (\<exists>ys. reorderAlbums ''c'' ''a'' st3 = (setItem ys, Inr (getAlbums (setItem ys)))
         \<and> length ys = 3
         \<and> rank (ys ! 0) = 2 \<and> rank (ys ! 1) = 3 \<and> rank (ys ! 2) = 1
         \<and> distinct (map rank ys) \<and> set (map rank ys) = {1..3})"
proof -
  have c: "findIndex (\<lambda>a. id' a = ''c'') (getAlbums st3) = Some 2"
    by (simp add: getAlbums_st3 normalize_def sample_def)
  have a: "findIndex (\<lambda>a. id' a = ''a'') (getAlbums st3) = Some 0"
    by (simp add: getAlbums_st3 normalize_def sample_def)
  have n: "length (getAlbums st3) = 3" by (simp add: getAlbums_st3)
  from reorderAlbums_ranks [OF c a] obtain ys where
    r: "reorderAlbums ''c'' ''a'' st3 = (setItem ys, Inr (getAlbums (setItem ys)))" and
    len: "length ys = length (getAlbums st3)" and
    nth: "\<forall>k<length (getAlbums st3). ys ! k =
              (getAlbums st3 ! k)\<lparr>rank := newRankOf (rank (getAlbums st3 ! 2)) (rank (getAlbums st3 ! 0))
                                             (rank (getAlbums st3 ! k))\<rparr>" and
    d: "distinct (map rank ys)" and
    s: "set (map rank ys) = {1..int (length (getAlbums st3))}"
    by blast
  from nth have k: "rank (ys ! 0) = 2 \<and> rank (ys ! 1) = 3 \<and> rank (ys ! 2) = 1"
    by (simp add: n getAlbums_st3 newRankOf_def)
  from len s n have "length ys = 3" and "set (map rank ys) = {1..3}" by simp_all
  with r k d have "reorderAlbums ''c'' ''a'' st3 = (setItem ys, Inr (getAlbums (setItem ys)))
         \<and> length ys = 3
         \<and> rank (ys ! 0) = 2 \<and> rank (ys ! 1) = 3 \<and> rank (ys ! 2) = 1
         \<and> distinct (map rank ys) \<and> set (map rank ys) = {1..3}"
    by (intro conjI) simp_all
  then have "\<exists>ys. reorderAlbums ''c'' ''a'' st3 = (setItem ys, Inr (getAlbums (setItem ys)))
         \<and> length ys = 3
         \<and> rank (ys ! 0) = 2 \<and> rank (ys ! 1) = 3 \<and> rank (ys ! 2) = 1
         \<and> distinct (map rank ys) \<and> set (map rank ys) = {1..3}"
    by (rule exI)
  with c a show ?thesis by (intro conjI)
qed

section \<open>What a read returns after a manual reorder\<close>

text \<open>
  The ranks \<^verbatim>\<open>reorderAlbums\<close> writes are never read back: \<^verbatim>\<open>getAlbums\<close> sorts by
  points, which the reorder did not change, and assigns the ranks anew. So the call
  returns the collection as it was read before, and so does every later read.
\<close>

lemma reorderAlbums_invisible:
  assumes di: "findIndex (\<lambda>a. id' a = d) (getAlbums st) = Some i"
    and tj: "findIndex (\<lambda>a. id' a = t) (getAlbums st) = Some j"
  shows "\<exists>st1. reorderAlbums d t st = (st1, Inr (getAlbums st)) \<and> getAlbums st1 = getAlbums st"
proof -
  from reorder_ranks [OF di tj] obtain ys where
    r: "reorderAlbums d t st = (setItem ys, Inr (getAlbums (setItem ys)))" and
    len: "length ys = length (getAlbums st)" and
    nth: "\<forall>k<length (getAlbums st). ys ! k =
              (getAlbums st ! k)\<lparr>rank := newRankOf (rank (getAlbums st ! i)) (rank (getAlbums st ! j))
                                             (rank (getAlbums st ! k))\<rparr>"
    by blast
  have "map eraseRank ys = map eraseRank (getAlbums st)"
    by (rule nth_equalityI) (simp_all add: len nth eraseRank_def)
  then have "getAlbums (setItem ys) = getAlbums st" by (rule getAlbums_rank_only)
  with r show ?thesis by simp
qed

text \<open>
  Claim C1, evaluated where it fails. The collection is a, b, c, all at 0 points. Dragging
  c onto a writes the ranks a = 2, b = 3, c = 1, but the call itself returns a, b, c with the
  ranks 1, 2, 3, and a read of the slot afterwards returns a, b, c with the ranks 1, 2, 3: the
  manual order c, a, b is not returned by any read, although no battle was recorded.
\<close>

theorem reorderAlbums_lost:
  "reorderAlbums ''c'' ''a'' st3
     = (Stored [(sample ''a'' (Some 0) (Some []))\<lparr>raw_rank := 2\<rparr>,
                (sample ''b'' (Some 0) (Some []))\<lparr>raw_rank := 3\<rparr>,
                (sample ''c'' (Some 0) (Some []))\<lparr>raw_rank := 1\<rparr>],
        Inr (getAlbums st3))
   \<and> map id' (getAlbums st3) = [''a'', ''b'', ''c'']
   \<and> map id' (getAlbums (fst (reorderAlbums ''c'' ''a'' st3))) = [''a'', ''b'', ''c'']
   \<and> map rank (getAlbums (fst (reorderAlbums ''c'' ''a'' st3))) = [1, 2, 3]"
  by (simp add: reorderAlbums_def updateAlbumRank_def shiftRanks_def st3_def getAlbums_def
        sortByPoints_def normalize_def sample_def Let_def setItem_def toStored_def)

section \<open>Adding and deleting\<close>

lemma assignRanks_append:
  "assignRanks i (xs @ ys) = assignRanks i xs @ assignRanks (i + length xs) ys"
  by (induction xs arbitrary: i) auto

lemma rank_in_assignRanks:
  "a \<in> set (assignRanks i xs) \<Longrightarrow> int i < rank a \<and> rank a \<le> int (i + length xs)"
proof (induction xs arbitrary: i)
  case Nil
  then show ?case by simp
next
  case (Cons x xs)
  then show ?case by fastforce
qed

lemma decrement_keeps:
  "i + length xs \<le> Suc p \<Longrightarrow>
   map (\<lambda>a. if rank a > int p + 1 then a\<lparr>rank := rank a - 1\<rparr> else a) (assignRanks i xs)
     = assignRanks i xs"
proof -
  assume h: "i + length xs \<le> Suc p"
  have "\<forall>a\<in>set (assignRanks i xs). \<not> rank a > int p + 1"
    using rank_in_assignRanks [of _ i xs] h by fastforce
  then show ?thesis by (simp add: map_idI)
qed

lemma decrement_shifts:
  "p \<le> i \<Longrightarrow>
   map (\<lambda>a. if rank a > int p + 1 then a\<lparr>rank := rank a - 1\<rparr> else a) (assignRanks (Suc i) xs)
     = assignRanks i xs"
  by (induction xs arbitrary: i) auto

lemma decrement_shifts0:
  "map (\<lambda>a. if rank a > int p + 1 then a\<lparr>rank := rank a - 1\<rparr> else a) (assignRanks (Suc p) xs)
     = assignRanks p xs"
  by (rule decrement_shifts) simp

lemma take_assignRanks: "take p (assignRanks i S) = assignRanks i (take p S)"
proof (induction S arbitrary: i p)
  case Nil
  then show ?case by simp
next
  case (Cons a S)
  then show ?case by (cases p) auto
qed

lemma drop_assignRanks: "p \<le> length S \<Longrightarrow> drop p (assignRanks i S) = assignRanks (i + p) (drop p S)"
proof (induction S arbitrary: i p)
  case Nil
  then show ?case by simp
next
  case (Cons a S)
  then show ?case by (cases p) auto
qed

lemma remove_from_ranked:
  assumes "p < length S"
  shows "map (\<lambda>a. if rank a > rank (assignRanks 0 S ! p) then a\<lparr>rank := rank a - 1\<rparr> else a)
           (take p (assignRanks 0 S) @ drop (Suc p) (assignRanks 0 S))
         = assignRanks 0 (take p S @ drop (Suc p) S)"
proof -
  let ?A = "take p S" and ?D = "drop (Suc p) S"
  have lA: "length ?A = p" using assms by simp
  have t: "take p (assignRanks 0 S) = assignRanks 0 ?A" by (rule take_assignRanks)
  have d: "drop (Suc p) (assignRanks 0 S) = assignRanks (Suc p) ?D"
    using assms by (simp add: drop_assignRanks)
  have r: "rank (assignRanks 0 S ! p) = int p + 1"
    using assms by (simp add: nth_assignRanks)
  have "map (\<lambda>a. if rank a > int p + 1 then a\<lparr>rank := rank a - 1\<rparr> else a) (assignRanks 0 ?A)
          = assignRanks 0 ?A"
    by (rule decrement_keeps) (simp add: lA)
  moreover have "map (\<lambda>a. if rank a > int p + 1 then a\<lparr>rank := rank a - 1\<rparr> else a) (assignRanks (Suc p) ?D)
          = assignRanks p ?D"
    by (rule decrement_shifts0)
  ultimately show ?thesis
    by (simp only: t d r map_append assignRanks_append lA add_0)
qed

lemma findIndex_exists: "x \<in> set S \<Longrightarrow> P x \<Longrightarrow> \<exists>p. findIndex P S = Some p"
  using findIndex_None [of P S] by (cases "findIndex P S") auto

lemma remove_unique:
  "findIndex P S = Some p \<Longrightarrow> filter P S = [y] \<Longrightarrow>
   take p S @ drop (Suc p) S = filter (\<lambda>x. \<not> P x) S"
proof (induction S arbitrary: p)
  case Nil
  then show ?case by simp
next
  case (Cons x S)
  show ?case
  proof (cases "P x")
    case True
    with Cons.prems have "p = 0" and "filter P S = []" by auto
    then have "filter (\<lambda>x. \<not> P x) S = S" by (simp add: filter_empty_conv)
    with True \<open>p = 0\<close> show ?thesis by simp
  next
    case False
    with Cons.prems obtain q where q: "findIndex P S = Some q" and p: "p = Suc q" by auto
    from Cons.prems False have "filter P S = [y]" by simp
    from Cons.IH [OF q this] False p show ?thesis by simp
  qed
qed

lemma highestRank_Max: "xs \<noteq> [] \<Longrightarrow> highestRank xs = Max (set (map rank xs))"
proof (cases xs)
  case Nil
  assume "xs \<noteq> []"
  with Nil show ?thesis by simp
next
  case (Cons a as)
  have "Max (set (rank a # map rank as)) = fold max (map rank as) (rank a)"
    by (rule Max.set_eq_fold)
  with Cons show ?thesis by (simp add: highestRank_def)
qed

lemma highestRank_getAlbums: "highestRank (getAlbums st) = int (length (getAlbums st))"
proof (cases "getAlbums st = []")
  case True
  then show ?thesis by (simp add: highestRank_def)
next
  case False
  let ?n = "length (getAlbums st)"
  have n: "0 < ?n" using False by simp
  have "Max (set (map rank (getAlbums st))) = int ?n"
  proof (rule Max_eqI)
    show "finite (set (map rank (getAlbums st)))" by simp
    show "int ?n \<in> set (map rank (getAlbums st))"
    proof -
      have "rank (getAlbums st ! (?n - 1)) = int (?n - 1) + 1"
        using n by (intro rank_getAlbums_nth) simp
      also have "\<dots> = int ?n" using n by linarith
      finally have "rank (getAlbums st ! (?n - 1)) = int ?n" .
      moreover have "getAlbums st ! (?n - 1) \<in> set (getAlbums st)" using n by simp
      ultimately show ?thesis by (metis image_eqI set_map)
    qed
    fix r assume "r \<in> set (map rank (getAlbums st))"
    then obtain k where "k < ?n" "r = rank (getAlbums st ! k)"
      by (auto simp: in_set_conv_nth)
    then show "r \<le> int ?n" by (simp add: rank_getAlbums_nth)
  qed
  with highestRank_Max [OF False] show ?thesis by simp
qed


text \<open>
  With an id that is new. Let no album of the collection have the catalogue key of the
  search result, and let the id made from \<^verbatim>\<open>Date.now()\<close> be the id of no album of the
  collection. Then \<^verbatim>\<open>addAlbum\<close> succeeds, the created album has that id, 0 points, no
  battles and rank N + 1, and \<^verbatim>\<open>deleteAlbum\<close> of its id succeeds and writes exactly the
  collection that was read before the add: the same albums in the same order with the same
  ids, points and ranks.
\<close>

lemma add_then_delete_fresh:
  assumes fresh_mbid: "\<forall>x\<in>set (getAlbums st). mbid x \<noteq> sr_id albumData"
    and fresh_id: "\<forall>x\<in>set (getAlbums st). id' x \<noteq> newId now"
  shows "\<exists>a st1. addAlbum albumData now st = (st1, Inr a) \<and> id' a = newId now
           \<and> mbid a = sr_id albumData \<and> points a = 0 \<and> battledWith a = []
           \<and> rank a = int (length (getAlbums st)) + 1
           \<and> deleteAlbum (id' a) st1 = (setItem (getAlbums st), Inr ())
           \<and> getAlbums (setItem (getAlbums st)) = getAlbums st"
proof -
  let ?xs = "getAlbums st"
  let ?P = "\<lambda>x. id' x = newId now"
  define new where "new = \<lparr> id' = newId now, title = sr_title albumData, artist = sr_artist albumData,
                  releaseYear = sr_releaseYear albumData,
                  coverArtUrl = sr_coverArtUrl albumData, mbid = sr_id albumData,
                  rank = highestRank ?xs + 1, points = 0, battledWith = [] \<rparr>"
  let ?st1 = "setItem (?xs @ [new])"
  let ?S = "sortByPoints (?xs @ [new])"
  have "find (\<lambda>a. mbid a = sr_id albumData) ?xs = None"
    using fresh_mbid by (simp add: find_None_iff)
  then have add: "addAlbum albumData now st = (?st1, Inr new)"
    by (simp add: addAlbum_def new_def Let_def)
  have idn: "id' new = newId now" by (simp add: new_def)
  have g1: "getAlbums ?st1 = assignRanks 0 ?S" by (rule getAlbums_setItem)
  have nofresh: "filter ?P ?xs = []" using fresh_id by (simp add: filter_empty_conv)
  have allold: "filter (\<lambda>x. \<not> ?P x) ?xs = ?xs" using fresh_id by (simp add: filter_id_conv)
  have "new \<in> set ?S" by simp
  with idn obtain p where p: "findIndex ?P ?S = Some p"
    using findIndex_exists [of new ?S ?P] by blast
  then have pl: "p < length ?S" using findIndex_Some [OF p] by simp
  have fp: "findIndex ?P (assignRanks 0 ?S) = Some p"
    using p by (simp add: findIndex_assignRanks)
  have "filter ?P ?S = sortByPoints (filter ?P (?xs @ [new]))"
    by (simp add: sortByPoints_def filter_sort)
  also have "\<dots> = [new]" using nofresh idn by (simp add: sortByPoints_def)
  finally have one: "filter ?P ?S = [new]" .
  have "take p ?S @ drop (Suc p) ?S = filter (\<lambda>x. \<not> ?P x) ?S"
    by (rule remove_unique [OF p one])
  also have "\<dots> = sortByPoints (filter (\<lambda>x. \<not> ?P x) (?xs @ [new]))"
    by (simp add: sortByPoints_def filter_sort)
  also have "\<dots> = sortByPoints ?xs" using allold idn by simp
  also have "\<dots> = ?xs" by (rule sortByPoints_id) (rule sorted_getAlbums)
  finally have rest: "take p ?S @ drop (Suc p) ?S = ?xs" .
  have "map (\<lambda>a. if rank a > rank (assignRanks 0 ?S ! p) then a\<lparr>rank := rank a - 1\<rparr> else a)
           (take p (assignRanks 0 ?S) @ drop (Suc p) (assignRanks 0 ?S)) = ?xs"
    using remove_from_ranked [OF pl] by (simp only: rest assignRanks_getAlbums)
  then have del: "deleteAlbum (newId now) ?st1 = (setItem ?xs, Inr ())"
    using fp by (simp add: deleteAlbum_def g1 Let_def)
  have again: "getAlbums (setItem ?xs) = ?xs"
    by (rule getAlbums_rank_only) simp
  have hr: "highestRank ?xs = int (length ?xs)" by (rule highestRank_getAlbums)
  from add del again idn hr show ?thesis by (auto simp: new_def)
qed



end
